theory Spec2Isabelle
  imports Main "HOL-Library.Multiset"
begin

section \<open>Python strings\<close>

text \<open>
  A Python \<open>str\<close> is a \<open>string\<close>: one \<open>char\<close> per code point, which covers the
  code points below 256. \<open>len\<close> is \<open>length\<close>, slicing \<open>s[:n]\<close> is \<open>take n s\<close>.
\<close>

definition py_lower_char :: "char \<Rightarrow> char" where
  \<comment> \<open>\<open>str.lower()\<close> on one code point below 256: A-Z, and the Latin-1 capitals
      192-222 except the multiplication sign 215, move up by 32.\<close>
  "py_lower_char c =
     (let n = (of_char c :: nat)
      in if (65 \<le> n \<and> n \<le> 90) \<or> (192 \<le> n \<and> n \<le> 222 \<and> n \<noteq> 215)
         then char_of (n + 32) else c)"

definition py_lower :: "string \<Rightarrow> string" where
  "py_lower s = map py_lower_char s"

fun startswith :: "string \<Rightarrow> string \<Rightarrow> bool" where
  \<comment> \<open>\<open>startswith s p\<close> is Python's \<open>s.startswith(p)\<close>.\<close>
  "startswith s [] = True"
| "startswith [] (p # ps) = False"
| "startswith (c # cs) (p # ps) = (c = p \<and> startswith cs ps)"

fun py_in :: "string \<Rightarrow> string \<Rightarrow> bool" where
  \<comment> \<open>\<open>py_in sub s\<close> is Python's \<open>sub in s\<close> on strings: \<open>sub\<close> occurs in \<open>s\<close> as a
      contiguous substring.\<close>
  "py_in sub [] = (sub = [])"
| "py_in sub (c # cs) = (startswith (c # cs) sub \<or> py_in sub cs)"

definition py_isspace :: "char \<Rightarrow> bool" where
  \<comment> \<open>The code points below 256 that \<open>str.strip()\<close> removes.\<close>
  "py_isspace c =
     (let n = (of_char c :: nat)
      in (9 \<le> n \<and> n \<le> 13) \<or> (28 \<le> n \<and> n \<le> 32) \<or> n = 133 \<or> n = 160)"

definition py_strip :: "string \<Rightarrow> string" where
  "py_strip s = rev (dropWhile py_isspace (rev (dropWhile py_isspace s)))"

section \<open>Python values, dictionaries and exceptions\<close>

datatype pyval =
    PNone
  | PBool bool
  | PInt int
  | PStr string
  | PList "pyval list"
  | PDict "(string \<times> pyval) list"

text \<open>
  A \<open>dict\<close> with string keys is an association list in insertion order, as Python
  keeps it. A dict literal lists its (distinct) keys in the order written.
\<close>

type_synonym pydict = "(string \<times> pyval) list"

datatype error =
    KeyError string
  | ZeroDivisionError
  | TypeError
  | OSError

fun truthy :: "pyval \<Rightarrow> bool" where
  "truthy PNone = False"
| "truthy (PBool b) = b"
| "truthy (PInt i) = (i \<noteq> 0)"
| "truthy (PStr s) = (s \<noteq> [])"
| "truthy (PList xs) = (xs \<noteq> [])"
| "truthy (PDict kvs) = (kvs \<noteq> [])"

definition getitem :: "('k \<times> 'v) list \<Rightarrow> 'k \<Rightarrow> 'v option" where
  \<comment> \<open>\<open>d[k]\<close>; \<open>None\<close> where Python raises \<open>KeyError\<close>.\<close>
  "getitem d k = map_of d k"

definition contains_key :: "('k \<times> 'v) list \<Rightarrow> 'k \<Rightarrow> bool" where
  \<comment> \<open>\<open>k in d\<close>\<close>
  "contains_key d k = (k \<in> set (map fst d))"

fun setitem :: "('k \<times> 'v) list \<Rightarrow> 'k \<Rightarrow> 'v \<Rightarrow> ('k \<times> 'v) list" where
  \<comment> \<open>\<open>d[k] = v\<close>: an existing key keeps its position, a new key goes last.\<close>
  "setitem [] k v = [(k, v)]"
| "setitem ((k', v') # d) k v =
     (if k' = k then (k, v) # d else (k', v') # setitem d k v)"

fun append_at :: "('k \<times> 'v list) list \<Rightarrow> 'k \<Rightarrow> 'v \<Rightarrow> ('k \<times> 'v list) list" where
  \<comment> \<open>\<open>d[k].append(x)\<close> for a key that is present (an absent key leaves \<open>d\<close>
      as it is; the caller creates the key first).\<close>
  "append_at [] k x = []"
| "append_at ((k', xs) # d) k x =
     (if k' = k then (k', xs @ [x]) # d else (k', xs) # append_at d k x)"

section \<open>The directory listing\<close>

text \<open>
  What \<open>Path.iterdir()\<close> yields for \<open>test-docs\<close>: one entry per name, with what
  \<open>pathlib\<close> and the file system report for it. \<open>Path.is_file()\<close> and
  \<open>Path.stat()\<close> follow symbolic links.
\<close>

datatype node =
    RegularFile
  | Directory
  | SpecialFile
  | BrokenSymlink
  | Symlink node

fun node_is_file :: "node \<Rightarrow> bool" where
  "node_is_file RegularFile = True"
| "node_is_file Directory = False"
| "node_is_file SpecialFile = False"
| "node_is_file BrokenSymlink = False"
| "node_is_file (Symlink target) = node_is_file target"

record entry =
  ent_name :: string     \<comment> \<open>\<open>file_path.name\<close>\<close>
  ent_suffix :: string   \<comment> \<open>\<open>file_path.suffix\<close>\<close>
  ent_node :: node       \<comment> \<open>what the name refers to\<close>
  ent_size :: int        \<comment> \<open>\<open>file_path.stat().st_size\<close>\<close>

definition is_file :: "entry \<Rightarrow> bool" where
  "is_file e = node_is_file (ent_node e)"

definition path_str :: "entry \<Rightarrow> string" where
  \<comment> \<open>\<open>str(file_path)\<close> for an entry of \<open>Path("test-docs")\<close>\<close>
  "path_str e = ''test-docs/'' @ ent_name e"

text \<open>
  The dictionary \<open>{'path': ..., 'name': ..., 'size': ..., 'extension': ...}\<close> built
  for each file; its four keys are fixed, so it is a record.
\<close>

record doc_info =
  doc_path :: string        \<comment> \<open>key \<open>'path'\<close>\<close>
  doc_name :: string        \<comment> \<open>key \<open>'name'\<close>\<close>
  doc_size :: int           \<comment> \<open>key \<open>'size'\<close>\<close>
  doc_extension :: string   \<comment> \<open>key \<open>'extension'\<close>\<close>

section \<open>Classification and the directory scan (\<open>get_test_documents\<close>)\<close>

definition classify :: "string \<Rightarrow> string \<Rightarrow> string" where
  \<comment> \<open>The \<open>if\<close>/\<open>elif\<close> chain of \<open>get_test_documents\<close>, from \<open>file_name\<close> and the
      already lower-cased \<open>file_ext\<close>.\<close>
  "classify file_name file_ext =
     (if file_ext \<in> set [''.jpg'', ''.jpeg'', ''.png''] then
        (if py_in ''mal'' (py_lower file_name) then ''malayalam_ocr''
         else if py_in ''handwrite'' (py_lower file_name)
                 \<or> py_in ''handwritten'' (py_lower file_name) then ''handwritten_ocr''
         else if py_in ''scan'' (py_lower file_name) then ''scanned_document''
         else ''image_ocr'')
      else if file_ext = ''.dwg'' then ''engineering_drawing''
      else if file_ext = ''.docx'' then ''word_document''
      else if file_ext = ''.pptx'' then ''powerpoint_presentation''
      else if file_ext = ''.csv'' then ''data_file''
      else ''other'')"

definition category_of :: "entry \<Rightarrow> string" where
  "category_of e = classify (ent_name e) (py_lower (ent_suffix e))"

definition make_doc_info :: "entry \<Rightarrow> doc_info" where
  "make_doc_info e =
     \<lparr> doc_path = path_str e, doc_name = ent_name e, doc_size = ent_size e,
       doc_extension = py_lower (ent_suffix e) \<rparr>"

type_synonym documents = "(string \<times> doc_info list) list"

definition scan_step :: "documents \<Rightarrow> entry \<Rightarrow> documents" where
  \<comment> \<open>One iteration of the loop over \<open>test_docs_dir.iterdir()\<close>.\<close>
  "scan_step documents e =
     (if is_file e then
        (let category = category_of e;
             documents1 = (if \<not> contains_key documents category
                           then setitem documents category [] else documents)
         in append_at documents1 category (make_doc_info e))
      else documents)"

definition get_test_documents :: "entry list option \<Rightarrow> documents" where
  \<comment> \<open>The argument is the listing of \<open>test-docs\<close>, \<open>None\<close> when the directory does
      not exist.\<close>
  "get_test_documents listing =
     (case listing of
        None \<Rightarrow> []
      | Some entries \<Rightarrow> foldl scan_step [] entries)"

section \<open>Python floats\<close>

text \<open>
  The floats of the script come from counts: a quotient of two counts, a product with
  100 or with the literal 0.7. Each is a non-negative IEEE-754 double, kept exactly as
  a fraction \<open>m / 2 ^ k\<close>; every operation rounds its exact result to 53 significant
  bits, ties to even, as the hardware does (the values stay far inside the normal
  range of a double).
\<close>

datatype pyfloat = Dyadic nat nat

fun bitlen :: "nat \<Rightarrow> nat" where
  "bitlen n = (if n = 0 then 0 else Suc (bitlen (n div 2)))"

declare bitlen.simps [simp del]

definition round53 :: "nat \<Rightarrow> nat" where
  \<comment> \<open>The nearest number with at most 53 significant bits, ties to even.\<close>
  "round53 p =
     (let l = bitlen p
      in if l \<le> 53 then p
         else (let sh = l - 53;
                   q = p div 2 ^ sh;
                   r = p mod 2 ^ sh;
                   h = 2 ^ (sh - 1)
               in (if h < r \<or> (r = h \<and> odd q) then q + 1 else q) * 2 ^ sh))"

definition float_of_nat :: "nat \<Rightarrow> pyfloat" where
  \<comment> \<open>the conversion of an \<open>int\<close> operand to \<open>float\<close>\<close>
  "float_of_nat n = Dyadic (round53 n) 0"

fun float_mul :: "pyfloat \<Rightarrow> pyfloat \<Rightarrow> pyfloat" where
  "float_mul (Dyadic a j) (Dyadic b k) = Dyadic (round53 (a * b)) (j + k)"

definition truediv :: "nat \<Rightarrow> nat \<Rightarrow> error + pyfloat" where
  \<comment> \<open>\<open>a / b\<close> on two \<open>int\<close>s: the correctly rounded quotient. The quotient is taken
      with at least 54 bits and a sticky bit for the remainder, then rounded.\<close>
  "truediv a b =
     (if b = 0 then Inl ZeroDivisionError
      else (let k = 54 + bitlen b - bitlen a;
                q = (a * 2 ^ k) div b;
                sticky = (if (a * 2 ^ k) mod b = 0 then 0 else 1)
            in Inr (Dyadic (round53 (2 * q + sticky)) (k + 1))))"

definition const_0_7 :: pyfloat where
  \<comment> \<open>the literal \<open>0.7\<close>: the double \<open>0x1.6666666666666p-1\<close>\<close>
  "const_0_7 = Dyadic 6305039478318694 53"

fun int_ge_float :: "nat \<Rightarrow> pyfloat \<Rightarrow> bool" where
  \<comment> \<open>\<open>n >= x\<close> for an \<open>int\<close> and a \<open>float\<close>: Python compares the exact values.\<close>
  "int_ge_float n (Dyadic m k) = (m \<le> n * 2 ^ k)"

fun float_ge_int :: "pyfloat \<Rightarrow> nat \<Rightarrow> bool" where
  "float_ge_int (Dyadic m k) n = (n * 2 ^ k \<le> m)"

fun format_1f :: "pyfloat \<Rightarrow> nat" where
  \<comment> \<open>\<open>f"{x:.1f}"\<close>, as the number of tenths shown: the exact value of the double
      rounded to one decimal, ties to even.\<close>
  "format_1f (Dyadic m k) =
     (let q = (10 * m) div 2 ^ k;
          r = (10 * m) mod 2 ^ k
      in if 2 ^ k < 2 * r \<or> (2 * r = 2 ^ k \<and> odd q) then q + 1 else q)"

definition percent :: "nat \<Rightarrow> nat \<Rightarrow> error + pyfloat" where
  \<comment> \<open>\<open>a / b * 100\<close>\<close>
  "percent a b =
     (case truediv a b of
        Inl e \<Rightarrow> Inl e
      | Inr x \<Rightarrow> Inr (float_mul x (float_of_nat 100)))"

section \<open>The world outside the script\<close>

text \<open>
  The script calls three things it does not define: the converter library, the clock
  and the \<open>docling\<close> command line. Their behaviour is a parameter of the model. They
  act on the outside world \<open>'w\<close> (files, time, the library's caches), so a call may
  answer differently each time.
\<close>

datatype conv_result =
    Converted string string
      \<comment> \<open>\<open>convert\<close> returned; \<open>export_to_markdown()\<close> and \<open>export_to_text()\<close> gave these\<close>
  | Raised string string
      \<comment> \<open>an exception \<open>e\<close> of class \<open>Exception\<close> left the \<open>try\<close> block:
          \<open>type(e).__name__\<close> and \<open>str(e)\<close>\<close>

datatype proc_result =
    Completed int string string
      \<comment> \<open>\<open>subprocess.run\<close> returned: \<open>returncode\<close>, \<open>stdout\<close>, \<open>stderr\<close>\<close>
  | TimeoutExpired
  | ProcRaised string
      \<comment> \<open>another exception \<open>e\<close> of class \<open>Exception\<close>: \<open>str(e)\<close>\<close>

record 'w env =
  docling_importable :: bool
  docling_version :: "string option"
  converter :: "string \<Rightarrow> 'w \<Rightarrow> conv_result \<times> 'w"
  now_isoformat :: "'w \<Rightarrow> string"
  subprocess_run :: "string \<Rightarrow> nat \<Rightarrow> 'w \<Rightarrow> proc_result \<times> 'w"

text \<open>
  The state threaded through the run: the outside world, and two logs the script does
  not keep, recording each call of the converter (its path) and of the command line
  (its path and timeout), in order.
\<close>

record 'w world =
  ext :: 'w
  convert_calls :: "string list"
  cli_calls :: "(string \<times> nat) list"

definition call_converter :: "'w env \<Rightarrow> string \<Rightarrow> 'w world \<Rightarrow> conv_result \<times> 'w world" where
  "call_converter env file_path w =
     (case converter env file_path (ext w) of
        (r, x) \<Rightarrow> (r, w\<lparr> ext := x, convert_calls := convert_calls w @ [file_path] \<rparr>))"

definition call_cli :: "'w env \<Rightarrow> string \<Rightarrow> nat \<Rightarrow> 'w world \<Rightarrow> proc_result \<times> 'w world" where
  "call_cli env file_path timeout w =
     (case subprocess_run env file_path timeout (ext w) of
        (r, x) \<Rightarrow> (r, w\<lparr> ext := x, cli_calls := cli_calls w @ [(file_path, timeout)] \<rparr>))"

section \<open>Converting one document (\<open>test_document_conversion\<close>)\<close>

definition preview_of :: "string \<Rightarrow> string" where
  \<comment> \<open>\<open>s[:200] + "..." if len(s) > 200 else s\<close>\<close>
  "preview_of s = (if length s > 200 then take 200 s @ ''...'' else s)"

definition success_info :: "string \<Rightarrow> doc_info \<Rightarrow> string \<Rightarrow> string \<Rightarrow> string \<Rightarrow> pydict" where
  "success_info category doc markdown_content text_content timestamp =
     [(''file_name'', PStr (doc_name doc)),
      (''category'', PStr category),
      (''file_size'', PInt (doc_size doc)),
      (''conversion_successful'', PBool True),
      (''markdown_length'', PInt (int (length markdown_content))),
      (''text_length'', PInt (int (length text_content))),
      (''has_content'', PBool (length (py_strip text_content) > 0)),
      (''preview'', PStr (preview_of text_content)),
      (''timestamp'', PStr timestamp)]"

definition error_info :: "string \<Rightarrow> doc_info \<Rightarrow> string \<Rightarrow> string \<Rightarrow> string \<Rightarrow> pydict" where
  "error_info category doc error_type message timestamp =
     [(''file_name'', PStr (doc_name doc)),
      (''category'', PStr category),
      (''file_size'', PInt (doc_size doc)),
      (''conversion_successful'', PBool False),
      (''error'', PStr message),
      (''error_type'', PStr error_type),
      (''timestamp'', PStr timestamp)]"

definition test_document_conversion ::
  "'w env \<Rightarrow> string \<Rightarrow> string \<Rightarrow> doc_info \<Rightarrow> 'w world \<Rightarrow> pydict \<times> 'w world" where
  \<comment> \<open>The \<open>try\<close> block makes one call of the converter; \<open>except Exception\<close> turns a
      raised exception into the error dictionary.\<close>
  "test_document_conversion env file_path category doc w =
     (case call_converter env file_path w of
        (Converted markdown_content text_content, w1) \<Rightarrow>
          (success_info category doc markdown_content text_content
             (now_isoformat env (ext w1)), w1)
      | (Raised error_type message, w1) \<Rightarrow>
          (error_info category doc error_type message (now_isoformat env (ext w1)), w1))"

section \<open>Counting outcomes\<close>

definition get_or_raise :: "pydict \<Rightarrow> string \<Rightarrow> error + pyval" where
  "get_or_raise d k = (case getitem d k of None \<Rightarrow> Inl (KeyError k) | Some v \<Rightarrow> Inr v)"

fun count_if :: "string \<Rightarrow> pydict list \<Rightarrow> error + nat" where
  \<comment> \<open>\<open>sum(1 for r in results if r[k])\<close>\<close>
  "count_if k [] = Inr 0"
| "count_if k (r # rs) =
     (case get_or_raise r k of
        Inl e \<Rightarrow> Inl e
      | Inr v \<Rightarrow>
          (case count_if k rs of
             Inl e \<Rightarrow> Inl e
           | Inr n \<Rightarrow> Inr (if truthy v then Suc n else n)))"

fun count_if_not :: "string \<Rightarrow> pydict list \<Rightarrow> error + nat" where
  \<comment> \<open>\<open>sum(1 for r in results if not r[k])\<close>\<close>
  "count_if_not k [] = Inr 0"
| "count_if_not k (r # rs) =
     (case get_or_raise r k of
        Inl e \<Rightarrow> Inl e
      | Inr v \<Rightarrow>
          (case count_if_not k rs of
             Inl e \<Rightarrow> Inl e
           | Inr n \<Rightarrow> Inr (if truthy v then n else Suc n)))"

section \<open>Converting one category (\<open>test_category\<close>)\<close>

fun convert_each ::
  "'w env \<Rightarrow> string \<Rightarrow> doc_info list \<Rightarrow> pydict list \<Rightarrow> 'w world \<Rightarrow> pydict list \<times> 'w world" where
  \<comment> \<open>the loop \<open>for doc_info in documents\<close>, with \<open>results\<close> as accumulator\<close>
  "convert_each env category [] results w = (results, w)"
| "convert_each env category (doc # docs) results w =
     (case test_document_conversion env (doc_path doc) category doc w of
        (result, w1) \<Rightarrow> convert_each env category docs (results @ [result]) w1)"

definition test_category ::
  "'w env \<Rightarrow> string \<Rightarrow> doc_info list \<Rightarrow> 'w world \<Rightarrow> (error + pydict list) \<times> 'w world" where
  \<comment> \<open>After the loop the summary is printed; its success rate is
      \<open>successful/len(results)*100\<close>, with no guard.\<close>
  "test_category env category documents w =
     (case convert_each env category documents [] w of
        (results, w1) \<Rightarrow>
          (case count_if ''conversion_successful'' results of
             Inl e \<Rightarrow> (Inl e, w1)
           | Inr successful \<Rightarrow>
               (case percent successful (length results) of
                  Inl e \<Rightarrow> (Inl e, w1)
                | Inr rate \<Rightarrow> (Inr results, w1))))"

section \<open>The command-line exercise (\<open>test_cli_interface\<close>)\<close>

definition cli_suffix_ok :: "entry \<Rightarrow> bool" where
  \<comment> \<open>\<open>file_path.suffix.lower() in ['.txt', '.csv', '.md']\<close>\<close>
  "cli_suffix_ok e = (py_lower (ent_suffix e) \<in> set [''.txt'', ''.csv'', ''.md''])"

fun cli_collect :: "entry list \<Rightarrow> entry list \<Rightarrow> entry list" where
  \<comment> \<open>the loop that fills \<open>cli_test_files\<close> and breaks at three\<close>
  "cli_collect [] cli_test_files = cli_test_files"
| "cli_collect (e # es) cli_test_files =
     (if cli_suffix_ok e then
        (let cli_test_files1 = cli_test_files @ [e]
         in if length cli_test_files1 \<ge> 3 then cli_test_files1
            else cli_collect es cli_test_files1)
      else cli_collect es cli_test_files)"

definition cli_outcome :: "entry \<Rightarrow> proc_result \<Rightarrow> pydict" where
  "cli_outcome e r =
     (case r of
        Completed returncode stdout stderr \<Rightarrow>
          (if returncode = 0 then
             [(''file_name'', PStr (ent_name e)),
              (''cli_successful'', PBool True),
              (''output_length'', PInt (int (length stdout))),
              (''preview'', PStr (preview_of stdout))]
           else
             [(''file_name'', PStr (ent_name e)),
              (''cli_successful'', PBool False),
              (''error'', PStr stderr),
              (''return_code'', PInt returncode)])
      | TimeoutExpired \<Rightarrow>
          [(''file_name'', PStr (ent_name e)),
           (''cli_successful'', PBool False),
           (''error'', PStr ''Timeout'')]
      | ProcRaised message \<Rightarrow>
          [(''file_name'', PStr (ent_name e)),
           (''cli_successful'', PBool False),
           (''error'', PStr message)])"

fun cli_each :: "'w env \<Rightarrow> entry list \<Rightarrow> pydict list \<Rightarrow> 'w world \<Rightarrow> pydict list \<times> 'w world" where
  \<comment> \<open>the loop \<open>for file_path in cli_test_files[:3]\<close>, with \<open>cli_results\<close> as
      accumulator; every branch of its body appends one outcome\<close>
  "cli_each env [] cli_results w = (cli_results, w)"
| "cli_each env (e # es) cli_results w =
     (case call_cli env (path_str e) 30 w of
        (r, w1) \<Rightarrow> cli_each env es (cli_results @ [cli_outcome e r]) w1)"

definition test_cli_interface :: "'w env \<Rightarrow> entry list option \<Rightarrow> 'w world \<Rightarrow> pydict list \<times> 'w world" where
  "test_cli_interface env listing w =
     (case listing of
        None \<Rightarrow> ([], w)
      | Some entries \<Rightarrow>
          (let cli_test_files = cli_collect entries []
           in if cli_test_files = [] then ([], w)
              else cli_each env (take 3 cli_test_files) [] w))"

section \<open>The printed report (\<open>generate_kmrl_report\<close>)\<close>

type_synonym all_results = "(string \<times> pydict list) list"

datatype pynum = NInt int | NFloat pyfloat

fun format_num_1f :: "pynum \<Rightarrow> nat" where
  \<comment> \<open>\<open>f"{x:.1f}"\<close> in tenths; an \<open>int\<close> is shown with \<open>.0\<close>\<close>
  "format_num_1f (NInt i) = nat (10 * i)"
| "format_num_1f (NFloat x) = format_1f x"

record category_line =
  cat_name :: string
  cat_successful :: nat
  cat_total :: nat
  cat_rate :: pynum
  cat_failed :: "string list"

text \<open>What the report prints, as values: the function itself returns nothing.\<close>

record report =
  rep_total_documents :: nat
  rep_total_successful :: nat
  rep_total_failed :: int
  rep_overall_rate :: pyfloat
  rep_breakdown :: "category_line list"
  rep_cli :: "(nat \<times> nat \<times> pyfloat) option"
  rep_critical_success :: bool
  rep_ocr :: "(nat \<times> nat \<times> pyfloat \<times> bool) option"
  rep_engineering :: "(nat \<times> nat) option"
  rep_ready :: bool

definition total_documents_of :: "all_results \<Rightarrow> nat" where
  \<comment> \<open>\<open>sum(len(results) for results in all_results.values())\<close>\<close>
  "total_documents_of all_results = sum_list (map (\<lambda>(category, results). length results) all_results)"

fun sum_counts :: "string \<Rightarrow> all_results \<Rightarrow> error + nat" where
  \<comment> \<open>\<open>sum(sum(1 for r in results if r[k]) for results in all_results.values())\<close>\<close>
  "sum_counts k [] = Inr 0"
| "sum_counts k ((category, results) # rest) =
     (case count_if k results of
        Inl e \<Rightarrow> Inl e
      | Inr n \<Rightarrow> (case sum_counts k rest of Inl e \<Rightarrow> Inl e | Inr m \<Rightarrow> Inr (n + m)))"

fun sum_counts_not :: "string \<Rightarrow> all_results \<Rightarrow> error + nat" where
  "sum_counts_not k [] = Inr 0"
| "sum_counts_not k ((category, results) # rest) =
     (case count_if_not k results of
        Inl e \<Rightarrow> Inl e
      | Inr n \<Rightarrow> (case sum_counts_not k rest of Inl e \<Rightarrow> Inl e | Inr m \<Rightarrow> Inr (n + m)))"

fun failed_docs_of :: "pydict list \<Rightarrow> error + pydict list" where
  \<comment> \<open>\<open>[r for r in results if not r['conversion_successful']]\<close>\<close>
  "failed_docs_of [] = Inr []"
| "failed_docs_of (r # rs) =
     (case get_or_raise r ''conversion_successful'' of
        Inl e \<Rightarrow> Inl e
      | Inr v \<Rightarrow>
          (case failed_docs_of rs of
             Inl e \<Rightarrow> Inl e
           | Inr failed_docs \<Rightarrow> Inr (if truthy v then failed_docs else r # failed_docs)))"

fun file_names_of :: "pydict list \<Rightarrow> error + pyval list" where
  \<comment> \<open>\<open>[d['file_name'] for d in failed_docs]\<close>\<close>
  "file_names_of [] = Inr []"
| "file_names_of (d # ds) =
     (case get_or_raise d ''file_name'' of
        Inl e \<Rightarrow> Inl e
      | Inr v \<Rightarrow> (case file_names_of ds of Inl e \<Rightarrow> Inl e | Inr vs \<Rightarrow> Inr (v # vs)))"

fun join_names :: "pyval list \<Rightarrow> error + string list" where
  \<comment> \<open>\<open>', '.join(names)\<close> accepts only \<open>str\<close> items; the names are kept apart\<close>
  "join_names [] = Inr []"
| "join_names (PStr s # vs) =
     (case join_names vs of Inl e \<Rightarrow> Inl e | Inr names \<Rightarrow> Inr (s # names))"
| "join_names (v # vs) = Inl TypeError"

definition failed_names :: "pydict list \<Rightarrow> error + string list" where
  \<comment> \<open>the names printed after \<open>Failed:\<close>, computed only \<open>if failed_docs\<close>\<close>
  "failed_names results =
     (case failed_docs_of results of
        Inl e \<Rightarrow> Inl e
      | Inr failed_docs \<Rightarrow>
          (if failed_docs \<noteq> [] then
             (case file_names_of failed_docs of
                Inl e \<Rightarrow> Inl e
              | Inr names \<Rightarrow> join_names names)
           else Inr []))"

definition category_rate :: "nat \<Rightarrow> nat \<Rightarrow> error + pynum" where
  \<comment> \<open>\<open>(successful/total*100) if total > 0 else 0\<close>\<close>
  "category_rate successful total_count =
     (if total_count > 0 then
        (case percent successful total_count of Inl e \<Rightarrow> Inl e | Inr x \<Rightarrow> Inr (NFloat x))
      else Inr (NInt 0))"

fun category_breakdown :: "all_results \<Rightarrow> error + category_line list" where
  "category_breakdown [] = Inr []"
| "category_breakdown ((category, results) # rest) =
     (case count_if ''conversion_successful'' results of
        Inl e \<Rightarrow> Inl e
      | Inr successful \<Rightarrow>
          (case category_rate successful (length results) of
             Inl e \<Rightarrow> Inl e
           | Inr success_rate \<Rightarrow>
               (case failed_names results of
                  Inl e \<Rightarrow> Inl e
                | Inr failed \<Rightarrow>
                    (case category_breakdown rest of
                       Inl e \<Rightarrow> Inl e
                     | Inr lines \<Rightarrow>
                         Inr (\<lparr> cat_name = category, cat_successful = successful,
                                cat_total = length results, cat_rate = success_rate,
                                cat_failed = failed \<rparr> # lines)))))"

definition critical_categories :: "string list" where
  "critical_categories = [''word_document'', ''powerpoint_presentation'', ''data_file'']"

fun check_critical :: "all_results \<Rightarrow> string list \<Rightarrow> bool \<Rightarrow> error + bool" where
  \<comment> \<open>the loop \<open>for category in critical_categories\<close>, with \<open>critical_success\<close>
      as accumulator\<close>
  "check_critical all_results [] critical_success = Inr critical_success"
| "check_critical all_results (category # cs) critical_success =
     (case getitem all_results category of
        None \<Rightarrow> check_critical all_results cs critical_success
      | Some results \<Rightarrow>
          (case count_if ''conversion_successful'' results of
             Inl e \<Rightarrow> Inl e
           | Inr successful \<Rightarrow>
               check_critical all_results cs
                 (if successful = 0 then False else critical_success)))"

definition ocr_categories :: "string list" where
  "ocr_categories = [''malayalam_ocr'', ''handwritten_ocr'', ''scanned_document'', ''image_ocr'']"

fun ocr_totals :: "all_results \<Rightarrow> string list \<Rightarrow> nat \<times> nat \<Rightarrow> error + nat \<times> nat" where
  \<comment> \<open>the loop \<open>for category in ocr_categories\<close>, with
      \<open>(ocr_success, ocr_total)\<close> as accumulator\<close>
  "ocr_totals all_results [] acc = Inr acc"
| "ocr_totals all_results (category # cs) (ocr_success, ocr_total) =
     (case getitem all_results category of
        None \<Rightarrow> ocr_totals all_results cs (ocr_success, ocr_total)
      | Some results \<Rightarrow>
          (case count_if ''conversion_successful'' results of
             Inl e \<Rightarrow> Inl e
           | Inr n \<Rightarrow> ocr_totals all_results cs (ocr_success + n, ocr_total + length results)))"

definition meets_threshold :: "nat \<Rightarrow> nat \<Rightarrow> bool" where
  \<comment> \<open>\<open>total_successful >= total_documents * 0.7\<close>\<close>
  "meets_threshold total_successful total_documents =
     int_ge_float total_successful (float_mul (float_of_nat total_documents) const_0_7)"

definition generate_kmrl_report :: "all_results \<Rightarrow> pydict list \<Rightarrow> error + report" where
  "generate_kmrl_report all_results cli_results =
     (let total_documents = total_documents_of all_results
      in case sum_counts ''conversion_successful'' all_results of
           Inl e \<Rightarrow> Inl e
         | Inr total_successful \<Rightarrow>
      (case percent total_successful total_documents of
           Inl e \<Rightarrow> Inl e
         | Inr overall \<Rightarrow>
      (case category_breakdown all_results of
           Inl e \<Rightarrow> Inl e
         | Inr lines \<Rightarrow>
      (case (if cli_results \<noteq> [] then
               (case count_if ''cli_successful'' cli_results of
                  Inl e \<Rightarrow> Inl e
                | Inr cli_successful \<Rightarrow>
                    (case percent cli_successful (length cli_results) of
                       Inl e \<Rightarrow> Inl e
                     | Inr x \<Rightarrow> Inr (Some (cli_successful, length cli_results, x))))
             else Inr None) of
           Inl e \<Rightarrow> Inl e
         | Inr cli \<Rightarrow>
      (case check_critical all_results critical_categories True of
           Inl e \<Rightarrow> Inl e
         | Inr critical_success \<Rightarrow>
      (case ocr_totals all_results ocr_categories (0, 0) of
           Inl e \<Rightarrow> Inl e
         | Inr (ocr_success, ocr_total) \<Rightarrow>
      (case (if ocr_total > 0 then
               (case percent ocr_success ocr_total of
                  Inl e \<Rightarrow> Inl e
                | Inr ocr_rate \<Rightarrow>
                    Inr (Some (ocr_success, ocr_total, ocr_rate, float_ge_int ocr_rate 50)))
             else Inr None) of
           Inl e \<Rightarrow> Inl e
         | Inr ocr \<Rightarrow>
      (case (case getitem all_results ''engineering_drawing'' of
               None \<Rightarrow> Inr None
             | Some eng_results \<Rightarrow>
                 (case count_if ''conversion_successful'' eng_results of
                    Inl e \<Rightarrow> Inl e
                  | Inr eng_successful \<Rightarrow> Inr (Some (eng_successful, length eng_results)))) of
           Inl e \<Rightarrow> Inl e
         | Inr eng \<Rightarrow>
             Inr \<lparr> rep_total_documents = total_documents,
                   rep_total_successful = total_successful,
                   rep_total_failed = int total_documents - int total_successful,
                   rep_overall_rate = overall,
                   rep_breakdown = lines,
                   rep_cli = cli,
                   rep_critical_success = critical_success,
                   rep_ocr = ocr,
                   rep_engineering = eng,
                   rep_ready = (critical_success
                                \<and> meets_threshold total_successful total_documents) \<rparr>))))))))"

section \<open>The report file (\<open>save_results\<close>)\<close>

subsection \<open>\<open>json.dump(report_data, f, indent=2)\<close>\<close>

definition hex_digit :: "nat \<Rightarrow> char" where
  "hex_digit d = ''0123456789abcdef'' ! (d mod 16)"

definition json_escape_char :: "char \<Rightarrow> string" where
  \<comment> \<open>the default \<open>ensure_ascii\<close> escaping of one code point below 256\<close>
  "json_escape_char c =
     (let n = (of_char c :: nat)
      in if n = 34 then [CHR 0x5C, CHR 0x22]
         else if n = 92 then [CHR 0x5C, CHR 0x5C]
         else if n = 10 then [CHR 0x5C, CHR ''n'']
         else if n = 13 then [CHR 0x5C, CHR ''r'']
         else if n = 9 then [CHR 0x5C, CHR ''t'']
         else if n = 8 then [CHR 0x5C, CHR ''b'']
         else if n = 12 then [CHR 0x5C, CHR ''f'']
         else if n < 32 \<or> 126 < n
           then [CHR 0x5C, CHR ''u'', CHR ''0'', CHR ''0'', hex_digit (n div 16), hex_digit n]
         else [c])"

definition json_str :: "string \<Rightarrow> string" where
  "json_str s = [CHR 0x22] @ concat (map json_escape_char s) @ [CHR 0x22]"

fun dec_nat :: "nat \<Rightarrow> string" where
  "dec_nat n = (if n < 10 then [hex_digit n] else dec_nat (n div 10) @ [hex_digit (n mod 10)])"

declare dec_nat.simps [simp del]

definition dec_int :: "int \<Rightarrow> string" where
  "dec_int i = (if i < 0 then ''-'' @ dec_nat (nat (- i)) else dec_nat (nat i))"

definition newline_indent :: "nat \<Rightarrow> string" where
  "newline_indent level = CHR 0x0A # replicate (2 * level) (CHR '' '')"

fun join :: "string \<Rightarrow> string list \<Rightarrow> string" where
  "join sep [] = []"
| "join sep [x] = x"
| "join sep (x # y # ys) = x @ sep @ join sep (y # ys)"

fun json_enc :: "nat \<Rightarrow> pyval \<Rightarrow> string" where
  "json_enc level PNone = ''null''"
| "json_enc level (PBool b) = (if b then ''true'' else ''false'')"
| "json_enc level (PInt i) = dec_int i"
| "json_enc level (PStr s) = json_str s"
| "json_enc level (PList xs) =
     (if xs = [] then ''[]''
      else ''['' @ newline_indent (Suc level)
           @ join ('','' @ newline_indent (Suc level)) (map (json_enc (Suc level)) xs)
           @ newline_indent level @ '']'')"
| "json_enc level (PDict kvs) =
     (if kvs = [] then ''{}''
      else ''{'' @ newline_indent (Suc level)
           @ join ('','' @ newline_indent (Suc level))
               (map (\<lambda>kv. json_str (fst kv) @ '': '' @ json_enc (Suc level) (snd kv)) kvs)
           @ newline_indent level @ ''}'')"

definition json_dumps :: "pyval \<Rightarrow> string" where
  "json_dumps v = json_enc 0 v"

subsection \<open>The file\<close>

text \<open>
  The file \<open>kmrl_docling_test_results.json\<close> is its content, \<open>None\<close> while it does
  not exist. \<open>open(..., 'w')\<close> creates or truncates it, and \<open>json.dump\<close> writes the
  text into it in place. The device is a parameter: it may refuse the \<open>open\<close>, or
  accept only the first \<open>n\<close> characters and then fail the write.
\<close>

datatype write_fault = NoFault | OpenFails | WriteFailsAfter nat

definition write_report_file :: "write_fault \<Rightarrow> string \<Rightarrow> string option \<Rightarrow> (error + unit) \<times> string option" where
  "write_report_file fault content file =
     (case fault of
        OpenFails \<Rightarrow> (Inl OSError, file)
      | NoFault \<Rightarrow> (Inr (), Some content)
      | WriteFailsAfter n \<Rightarrow>
          (if n < length content then (Inl OSError, Some (take n content))
           else (Inr (), Some content)))"

definition categories_value :: "all_results \<Rightarrow> pyval" where
  "categories_value all_results =
     PDict (map (\<lambda>(category, results). (category, PList (map PDict results))) all_results)"

definition report_data :: "'w env \<Rightarrow> all_results \<Rightarrow> pydict list \<Rightarrow> string \<Rightarrow> error + pyval" where
  "report_data env all_results cli_results timestamp =
     (case sum_counts ''conversion_successful'' all_results of
        Inl e \<Rightarrow> Inl e
      | Inr total_successful \<Rightarrow>
          (case sum_counts_not ''conversion_successful'' all_results of
             Inl e \<Rightarrow> Inl e
           | Inr total_failed \<Rightarrow>
               Inr (PDict
                 [(''test_timestamp'', PStr timestamp),
                  (''docling_version'',
                     (case docling_version env of None \<Rightarrow> PNone | Some v \<Rightarrow> PStr v)),
                  (''total_documents'', PInt (int (total_documents_of all_results))),
                  (''categories'', categories_value all_results),
                  (''cli_results'', PList (map PDict cli_results)),
                  (''summary'', PDict
                     [(''total_successful'', PInt (int total_successful)),
                      (''total_failed'', PInt (int total_failed))])])))"

definition save_results ::
  "'w env \<Rightarrow> all_results \<Rightarrow> pydict list \<Rightarrow> write_fault \<Rightarrow> 'w world \<Rightarrow> string option
     \<Rightarrow> (error + unit) \<times> string option" where
  \<comment> \<open>No \<open>try\<close> surrounds the \<open>with open(...)\<close> block: an error of the write leaves
      the function as it is raised.\<close>
  "save_results env all_results cli_results fault w file =
     (case report_data env all_results cli_results (now_isoformat env (ext w)) of
        Inl e \<Rightarrow> (Inl e, file)
      | Inr data \<Rightarrow> write_report_file fault (json_dumps data) file)"

section \<open>The whole run (\<open>main\<close>)\<close>

fun run_categories ::
  "'w env \<Rightarrow> documents \<Rightarrow> all_results \<Rightarrow> 'w world \<Rightarrow> (error + all_results) \<times> all_results \<times> 'w world" where
  \<comment> \<open>the loop \<open>for category, docs in documents.items()\<close>, with \<open>all_results\<close> as
      accumulator; an exception leaves the loop with what was accumulated\<close>
  "run_categories env [] all_results w = (Inr all_results, all_results, w)"
| "run_categories env ((category, docs) # rest) all_results w =
     (case test_category env category docs w of
        (Inl e, w1) \<Rightarrow> (Inl e, all_results, w1)
      | (Inr results, w1) \<Rightarrow>
          run_categories env rest (setitem all_results category results) w1)"

datatype exit_kind =
    Completed_run
  | No_docling
  | No_documents
  | Uncaught error

record 'w final =
  fin_exit :: exit_kind
  fin_all_results :: all_results
  fin_cli_results :: "pydict list"
  fin_report :: "report option"
  fin_world :: "'w world"
  fin_file :: "string option"

definition main ::
  "'w env \<Rightarrow> entry list option \<Rightarrow> write_fault \<Rightarrow> 'w world \<Rightarrow> string option \<Rightarrow> 'w final" where
  "main env listing fault w file =
     (if \<not> docling_importable env then
        \<lparr> fin_exit = No_docling, fin_all_results = [], fin_cli_results = [],
          fin_report = None, fin_world = w, fin_file = file \<rparr>
      else
        (let documents = get_test_documents listing
         in if documents = [] then
              \<lparr> fin_exit = No_documents, fin_all_results = [], fin_cli_results = [],
                fin_report = None, fin_world = w, fin_file = file \<rparr>
            else
              (case run_categories env documents [] w of
                 (Inl e, all_results, w1) \<Rightarrow>
                   \<lparr> fin_exit = Uncaught e, fin_all_results = all_results,
                     fin_cli_results = [], fin_report = None, fin_world = w1,
                     fin_file = file \<rparr>
               | (Inr _, all_results, w1) \<Rightarrow>
                   (case test_cli_interface env listing w1 of
                      (cli_results, w2) \<Rightarrow>
                        (case generate_kmrl_report all_results cli_results of
                           Inl e \<Rightarrow>
                             \<lparr> fin_exit = Uncaught e, fin_all_results = all_results,
                               fin_cli_results = cli_results, fin_report = None,
                               fin_world = w2, fin_file = file \<rparr>
                         | Inr rep \<Rightarrow>
                             (case save_results env all_results cli_results fault w2 file of
                                (Inl e, file1) \<Rightarrow>
                                  \<lparr> fin_exit = Uncaught e, fin_all_results = all_results,
                                    fin_cli_results = cli_results, fin_report = Some rep,
                                    fin_world = w2, fin_file = file1 \<rparr>
                              | (Inr _, file1) \<Rightarrow>
                                  \<lparr> fin_exit = Completed_run, fin_all_results = all_results,
                                    fin_cli_results = cli_results, fin_report = Some rep,
                                    fin_world = w2, fin_file = file1 \<rparr>))))))"

section \<open>The classifier as the specification words it\<close>

text \<open>
  The specification gives the classifier as an ordered table of rules over the
  lower-cased file name and extension; the first rule that matches decides, and a
  file that matches none is \<open>other\<close>.
\<close>

definition spec_image_ext :: "string \<Rightarrow> bool" where
  "spec_image_ext e = (e = ''.jpg'' \<or> e = ''.jpeg'' \<or> e = ''.png'')"

definition spec_rules :: "((string \<Rightarrow> string \<Rightarrow> bool) \<times> string) list" where
  "spec_rules =
     [(\<lambda>n e. spec_image_ext e \<and> py_in ''mal'' n, ''malayalam_ocr''),
      (\<lambda>n e. spec_image_ext e \<and> (py_in ''handwrite'' n \<or> py_in ''handwritten'' n),
         ''handwritten_ocr''),
      (\<lambda>n e. spec_image_ext e \<and> py_in ''scan'' n, ''scanned_document''),
      (\<lambda>n e. spec_image_ext e, ''image_ocr''),
      (\<lambda>n e. e = ''.dwg'', ''engineering_drawing''),
      (\<lambda>n e. e = ''.docx'', ''word_document''),
      (\<lambda>n e. e = ''.pptx'', ''powerpoint_presentation''),
      (\<lambda>n e. e = ''.csv'', ''data_file'')]"

fun spec_first_match ::
  "((string \<Rightarrow> string \<Rightarrow> bool) \<times> string) list \<Rightarrow> string \<Rightarrow> string \<Rightarrow> string" where
  "spec_first_match [] n e = ''other''"
| "spec_first_match ((p, c) # rules) n e = (if p n e then c else spec_first_match rules n e)"

definition spec_classify :: "entry \<Rightarrow> string" where
  "spec_classify e =
     spec_first_match spec_rules (py_lower (ent_name e)) (py_lower (ent_suffix e))"

definition all_categories :: "string list" where
  "all_categories =
     [''malayalam_ocr'', ''handwritten_ocr'', ''scanned_document'', ''image_ocr'',
      ''engineering_drawing'', ''word_document'', ''powerpoint_presentation'',
      ''data_file'', ''other'']"

section \<open>Notions used to state the properties\<close>

text \<open>
  A regular file in the narrow sense of the specification: the name refers to the file
  itself, not to a symbolic link.
\<close>

definition is_regular_file :: "entry \<Rightarrow> bool" where
  "is_regular_file e = (ent_node e = RegularFile)"

text \<open>The grouping built by the scan has distinct keys and no empty list.\<close>

definition scan_inv :: "documents \<Rightarrow> bool" where
  "scan_inv documents = (distinct (map fst documents) \<and> [] \<notin> set (map snd documents))"

text \<open>
  The answers of the converter to a sequence of calls, each with the outside world it
  leaves, and the outside world after the last call.
\<close>

fun converter_answers :: "'w env \<Rightarrow> string list \<Rightarrow> 'w \<Rightarrow> (conv_result \<times> 'w) list" where
  "converter_answers env [] x = []"
| "converter_answers env (p # ps) x =
     (case converter env p x of (r, x1) \<Rightarrow> (r, x1) # converter_answers env ps x1)"

fun converter_leaves :: "'w env \<Rightarrow> string list \<Rightarrow> 'w \<Rightarrow> 'w" where
  "converter_leaves env [] x = x"
| "converter_leaves env (p # ps) x = converter_leaves env ps (snd (converter env p x))"

text \<open>The outcome dictionary that one answer of the converter leads to.\<close>

definition outcome_of :: "'w env \<Rightarrow> string \<Rightarrow> doc_info \<Rightarrow> conv_result \<times> 'w \<Rightarrow> pydict" where
  "outcome_of env category doc a =
     (case a of
        (Converted markdown_content text_content, x) \<Rightarrow>
          success_info category doc markdown_content text_content (now_isoformat env x)
      | (Raised error_type message, x) \<Rightarrow>
          error_info category doc error_type message (now_isoformat env x))"

text \<open>Reading a key of an outcome: its truth value, and whether it is there.\<close>

definition truthy_at :: "string \<Rightarrow> pydict \<Rightarrow> bool" where
  "truthy_at k r = (case getitem r k of None \<Rightarrow> False | Some v \<Rightarrow> truthy v)"

definition has_key :: "string \<Rightarrow> pydict \<Rightarrow> bool" where
  "has_key k r = (getitem r k \<noteq> None)"

text \<open>
  An outcome is well formed when it has the two keys the report reads; the results of a
  run are well formed when every outcome is.
\<close>

definition wf_outcome :: "pydict \<Rightarrow> bool" where
  "wf_outcome r = (has_key ''conversion_successful'' r \<and> (\<exists>s. getitem r ''file_name'' = Some (PStr s)))"

definition wf_results :: "all_results \<Rightarrow> bool" where
  "wf_results all_results = (\<forall>rs \<in> set (map snd all_results). \<forall>r \<in> set rs. wf_outcome r)"

text \<open>The number of successful outcomes in a list.\<close>

definition successes :: "pydict list \<Rightarrow> nat" where
  "successes rs = length (filter (truthy_at ''conversion_successful'') rs)"

text \<open>
  A number \<open>d\<close> of tenths is the rate \<open>successful / total * 100\<close> to one decimal when
  it is within half a tenth of the exact quotient: \<open>|d / 10 - 100 * successful / total|
  \<le> 1 / 20\<close>, written without division. At an exact tie both neighbours qualify.
\<close>

definition rounds_to_tenths :: "nat \<Rightarrow> nat \<Rightarrow> nat \<Rightarrow> bool" where
  "rounds_to_tenths successful total_count d =
     (2 * d * total_count \<le> 2000 * successful + total_count
      \<and> 2000 * successful \<le> 2 * d * total_count + total_count)"

text \<open>
  The results of a run correspond to a grouping when they have its categories, in
  order, with one outcome per document.
\<close>

definition corresponds :: "documents \<Rightarrow> all_results \<Rightarrow> bool" where
  "corresponds documents all_results =
     list_all2 (\<lambda>(category, docs) (category', results).
        category' = category \<and> length results = length docs) documents all_results"

text \<open>
  The answers of the command line to a sequence of invocations with the timeout of the
  script, and the outside world after the last one.
\<close>

fun cli_answers :: "'w env \<Rightarrow> string list \<Rightarrow> 'w \<Rightarrow> (proc_result \<times> 'w) list" where
  "cli_answers env [] x = []"
| "cli_answers env (p # ps) x =
     (case subprocess_run env p 30 x of (r, x1) \<Rightarrow> (r, x1) # cli_answers env ps x1)"

fun cli_leaves :: "'w env \<Rightarrow> string list \<Rightarrow> 'w \<Rightarrow> 'w" where
  "cli_leaves env [] x = x"
| "cli_leaves env (p # ps) x = cli_leaves env ps (snd (subprocess_run env p 30 x))"

text \<open>The entries the command-line exercise runs on.\<close>

definition cli_selected :: "entry list \<Rightarrow> entry list" where
  "cli_selected entries = take 3 (filter cli_suffix_ok entries)"

text \<open>The outcome that records a timeout of the command line for an entry.\<close>

definition timeout_outcome :: "entry \<Rightarrow> pydict" where
  "timeout_outcome e =
     [(''file_name'', PStr (ent_name e)),
      (''cli_successful'', PBool False),
      (''error'', PStr ''Timeout'')]"

section \<open>An example run\<close>

text \<open>
  A converter that refuses \<open>drawing.dwg\<close> and converts everything else, a clock that
  shows the number of calls so far, and a command line that times out on \<open>data.csv\<close>;
  directory entries of a given kind, among them a symbolic link to a regular file and a
  listing whose first three entries are not files; the results of a run over four
  documents, one of which failed; and results with a category of three outcomes, two
  of them successful, and a category without outcomes.
\<close>

definition demo_doc :: "string \<Rightarrow> string \<Rightarrow> doc_info" where
  "demo_doc n e = \<lparr> doc_path = ''test-docs/'' @ n, doc_name = n, doc_size = 10, doc_extension = e \<rparr>"

definition demo_env :: "nat env" where
  "demo_env =
     \<lparr> docling_importable = True,
       docling_version = Some ''2.0'',
       converter = (\<lambda>p n. (if p = ''test-docs/drawing.dwg''
                              then Raised ''ValueError'' ''unsupported format''
                              else Converted ''# md'' '' text '', Suc n)),
       now_isoformat = (\<lambda>n. replicate n (CHR ''t'')),
       subprocess_run = (\<lambda>p t n. (if p = ''test-docs/data.csv'' then TimeoutExpired
                                     else Completed 0 ''out'' [], Suc n)) \<rparr>"

definition demo_world :: "nat world" where
  "demo_world = \<lparr> ext = 0, convert_calls = [], cli_calls = [] \<rparr>"

definition demo_entry :: "string \<Rightarrow> string \<Rightarrow> node \<Rightarrow> entry" where
  "demo_entry n s k = \<lparr> ent_name = n, ent_suffix = s, ent_node = k, ent_size = 10 \<rparr>"

definition demo_link :: entry where
  "demo_link = demo_entry ''a.csv'' ''.csv'' (Symlink RegularFile)"

definition demo_results :: all_results where
  "demo_results =
     [(''word_document'',
         [success_info ''word_document'' (demo_doc ''report.docx'' ''.docx'') ''# md'' ''text'' ''t'']),
      (''data_file'',
         [success_info ''data_file'' (demo_doc ''data.csv'' ''.csv'') ''# md'' ''text'' ''tt'',
          success_info ''data_file'' (demo_doc ''more.csv'' ''.csv'') ''# md'' ''text'' ''ttt'']),
      (''engineering_drawing'',
         [error_info ''engineering_drawing'' (demo_doc ''drawing.dwg'' ''.dwg'')
            ''ValueError'' ''unsupported format'' ''tttt''])]"

definition demo_mixed :: "entry list" where
  "demo_mixed =
     [demo_entry ''dir.txt'' ''.txt'' Directory,
      demo_entry ''gone.md'' ''.md'' BrokenSymlink,
      demo_entry ''pipe.csv'' ''.csv'' SpecialFile,
      demo_entry ''real.txt'' ''.txt'' RegularFile]"

definition demo_rates :: all_results where
  "demo_rates =
     [(''data_file'',
         [success_info ''data_file'' (demo_doc ''data.csv'' ''.csv'') ''# md'' ''text'' ''t'',
          success_info ''data_file'' (demo_doc ''more.csv'' ''.csv'') ''# md'' ''text'' ''tt'',
          error_info ''data_file'' (demo_doc ''bad.csv'' ''.csv'')
            ''ValueError'' ''unsupported format'' ''ttt'']),
      (''other'', [])]"

section \<open>Substring search\<close>

lemma startswith_iff: "startswith s p \<longleftrightarrow> (\<exists>post. s = p @ post)"
  by (induction s p rule: startswith.induct) auto

lemma py_in_iff: "py_in sub s \<longleftrightarrow> (\<exists>pre post. s = pre @ sub @ post)"
proof (induction s)
  case Nil
  then show ?case by auto
next
  case (Cons c cs)
  show ?case
  proof
    assume "py_in sub (c # cs)"
    then consider "startswith (c # cs) sub" | "py_in sub cs" by auto
    then show "\<exists>pre post. c # cs = pre @ sub @ post"
    proof cases
      case 1
      then obtain post where "c # cs = sub @ post" by (auto simp: startswith_iff)
      then have "c # cs = [] @ sub @ post" by simp
      then show ?thesis by blast
    next
      case 2
      then obtain pre post where "cs = pre @ sub @ post" using Cons.IH by blast
      then have "c # cs = (c # pre) @ sub @ post" by simp
      then show ?thesis by blast
    qed
  next
    assume "\<exists>pre post. c # cs = pre @ sub @ post"
    then obtain pre post where eq: "c # cs = pre @ sub @ post" by blast
    show "py_in sub (c # cs)"
    proof (cases pre)
      case Nil
      with eq have "startswith (c # cs) sub" by (auto simp: startswith_iff)
      then show ?thesis by simp
    next
      case (Cons a pre')
      with eq have "cs = pre' @ sub @ post" by simp
      then have "py_in sub cs" using Cons.IH by blast
      then show ?thesis by simp
    qed
  qed
qed

section \<open>The scan keeps its invariant\<close>

lemma setitem_absent: "k \<notin> set (map fst d) \<Longrightarrow> setitem d k v = d @ [(k, v)]"
  by (induction d) auto

lemma append_at_absent: "k \<notin> set (map fst d) \<Longrightarrow> append_at (d @ [(k, xs)]) k x = d @ [(k, xs @ [x])]"
  by (induction d) auto

lemma append_at_keys: "map fst (append_at d k x) = map fst d"
  by (induction d) auto

lemma append_at_nonempty: "[] \<notin> set (map snd d) \<Longrightarrow> [] \<notin> set (map snd (append_at d k x))"
proof (induction d)
  case Nil
  then show ?case by simp
next
  case (Cons p d)
  obtain k' xs where p: "p = (k', xs)" by (cases p)
  from Cons.prems p have "xs \<noteq> []" and "[] \<notin> set (map snd d)" by auto
  with Cons.IH p show ?case by (cases "k' = k") auto
qed

lemma append_at_mset:
  "k \<in> set (map fst d) \<Longrightarrow>
     mset (concat (map snd (append_at d k x))) = add_mset x (mset (concat (map snd d)))"
  by (induction d) (auto simp: rev_image_eqI)

lemma scan_step_file:
  "is_file e \<Longrightarrow> scan_step documents e =
     (if category_of e \<in> set (map fst documents)
      then append_at documents (category_of e) (make_doc_info e)
      else documents @ [(category_of e, [make_doc_info e])])"
  using append_at_absent [of "category_of e" documents "[]" "make_doc_info e"]
  by (simp add: scan_step_def contains_key_def setitem_absent Let_def)

lemma scan_step_other: "\<not> is_file e \<Longrightarrow> scan_step documents e = documents"
  by (simp add: scan_step_def)

lemma scan_step_inv: "scan_inv documents \<Longrightarrow> scan_inv (scan_step documents e)"
proof (cases "is_file e")
  case True
  assume inv: "scan_inv documents"
  show ?thesis
  proof (cases "category_of e \<in> set (map fst documents)")
    case present: True
    with True inv append_at_nonempty [of documents "category_of e" "make_doc_info e"]
    show ?thesis
      by (simp add: scan_inv_def scan_step_file append_at_keys)
  next
    case False
    with True inv show ?thesis
      by (simp add: scan_inv_def scan_step_file)
  qed
next
  case False
  assume "scan_inv documents"
  with False show ?thesis by (simp add: scan_step_other)
qed

lemma scan_step_mset:
  "mset (concat (map snd (scan_step documents e))) =
     mset (concat (map snd documents)) + mset (map make_doc_info (filter is_file [e]))"
  by (cases "is_file e") (auto simp: scan_step_file scan_step_other append_at_mset)

lemma foldl_scan_inv: "scan_inv documents \<Longrightarrow> scan_inv (foldl scan_step documents es)"
  by (induction es arbitrary: documents) (auto simp: scan_step_inv)

lemma foldl_scan_mset:
  "mset (concat (map snd (foldl scan_step documents es))) =
     mset (concat (map snd documents)) + mset (map make_doc_info (filter is_file es))"
  by (induction es arbitrary: documents) (auto simp: scan_step_mset)

lemma get_test_documents_inv: "scan_inv (get_test_documents listing)"
proof -
  have "scan_inv []" by (simp add: scan_inv_def)
  then show ?thesis
    by (cases listing) (simp_all add: get_test_documents_def foldl_scan_inv)
qed

lemma get_test_documents_mset:
  "mset (concat (map snd (get_test_documents (Some es)))) = mset (map make_doc_info (filter is_file es))"
  by (simp add: get_test_documents_def foldl_scan_mset)

section \<open>The conversion loop\<close>

lemma test_document_conversion_eq:
  "test_document_conversion env file_path category doc w =
     (outcome_of env category doc (converter env file_path (ext w)),
      w\<lparr> ext := snd (converter env file_path (ext w)),
         convert_calls := convert_calls w @ [file_path] \<rparr>)"
  by (auto simp: test_document_conversion_def call_converter_def outcome_of_def
      split: prod.splits conv_result.splits)

lemma convert_each_eq:
  "convert_each env category docs results w =
     (results @ map2 (outcome_of env category) docs
                  (converter_answers env (map doc_path docs) (ext w)),
      w\<lparr> ext := converter_leaves env (map doc_path docs) (ext w),
         convert_calls := convert_calls w @ map doc_path docs \<rparr>)"
proof (induction docs arbitrary: results w)
  case Nil
  show ?case by simp
next
  case (Cons doc docs)
  show ?case
    by (simp add: test_document_conversion_eq Cons.IH split: prod.splits)
qed

lemma length_converter_answers: "length (converter_answers env ps x) = length ps"
  by (induction ps arbitrary: x) (auto split: prod.splits)

lemma outcome_of_has_key: "has_key ''conversion_successful'' (outcome_of env category doc a)"
proof -
  obtain r x where a: "a = (r, x)" by (cases a)
  show ?thesis
    by (cases r) (simp_all add: a outcome_of_def has_key_def getitem_def success_info_def error_info_def)
qed

lemma count_if_total:
  "\<forall>r \<in> set rs. has_key k r \<Longrightarrow> count_if k rs = Inr (length (filter (truthy_at k) rs))"
  by (induction rs) (auto simp: get_or_raise_def has_key_def truthy_at_def split: option.splits)

lemma count_if_Inr:
  "count_if k rs = Inr n \<Longrightarrow> n = length (filter (truthy_at k) rs) \<and> (\<forall>r \<in> set rs. has_key k r)"
  by (induction rs arbitrary: n)
     (auto simp: get_or_raise_def has_key_def truthy_at_def split: option.splits sum.splits if_splits)

lemma percent_positive: "0 < b \<Longrightarrow> \<exists>x. percent a b = Inr x"
  by (simp add: percent_def truediv_def Let_def)

lemma percent_zero: "percent a 0 = Inl ZeroDivisionError"
  by (simp add: percent_def truediv_def)

lemma test_category_eq:
  assumes "docs \<noteq> []"
  shows "test_category env category docs w =
     (Inr (map2 (outcome_of env category) docs
                  (converter_answers env (map doc_path docs) (ext w))),
      w\<lparr> ext := converter_leaves env (map doc_path docs) (ext w),
         convert_calls := convert_calls w @ map doc_path docs \<rparr>)"
proof -
  let ?rs = "map2 (outcome_of env category) docs
                  (converter_answers env (map doc_path docs) (ext w))"
  have keys: "\<forall>r \<in> set ?rs. has_key ''conversion_successful'' r"
    by (auto simp: outcome_of_has_key dest!: set_zip_rightD set_zip_leftD)
  have len: "0 < length ?rs"
    using assms by (simp add: length_converter_answers)
  obtain x where "percent (length (filter (truthy_at ''conversion_successful'') ?rs)) (length ?rs) = Inr x"
    using percent_positive [OF len] by blast
  then show ?thesis
    by (simp add: test_category_def convert_each_eq count_if_total [OF keys])
qed

section \<open>The report and the run are total on well-formed results\<close>

lemma outcome_of_wf: "wf_outcome (outcome_of env category doc a)"
proof -
  obtain r x where a: "a = (r, x)" by (cases a)
  show ?thesis
    by (cases r) (simp_all add: a wf_outcome_def outcome_of_def has_key_def getitem_def success_info_def error_info_def)
qed

lemma wf_results_Nil: "wf_results []"
  by (simp add: wf_results_def)

lemma wf_results_Cons: "wf_results ((c, rs) # rest) \<longleftrightarrow> (\<forall>r \<in> set rs. wf_outcome r) \<and> wf_results rest"
  by (auto simp: wf_results_def)

lemma wf_results_append: "wf_results (xs @ ys) \<longleftrightarrow> wf_results xs \<and> wf_results ys"
  by (auto simp: wf_results_def)

lemma count_if_wf: "\<forall>r \<in> set rs. wf_outcome r \<Longrightarrow> count_if ''conversion_successful'' rs = Inr (successes rs)"
  unfolding successes_def by (rule count_if_total) (simp add: wf_outcome_def)

lemma sum_counts_wf:
  "wf_results ar \<Longrightarrow> sum_counts ''conversion_successful'' ar = Inr (sum_list (map (\<lambda>(c, rs). successes rs) ar))"
proof (induction ar)
  case Nil
  show ?case by simp
next
  case (Cons p ar)
  obtain c rs where p: "p = (c, rs)" by (cases p)
  from Cons.prems have "\<forall>r \<in> set rs. wf_outcome r" and "wf_results ar"
    by (simp_all add: p wf_results_Cons)
  then show ?case using Cons.IH by (simp add: p count_if_wf)
qed

lemma count_if_not_total:
  "\<forall>r \<in> set rs. has_key k r \<Longrightarrow> count_if_not k rs = Inr (length (filter (\<lambda>r. \<not> truthy_at k r) rs))"
  by (induction rs) (auto simp: get_or_raise_def has_key_def truthy_at_def split: option.splits)

lemma sum_counts_not_wf:
  "wf_results ar \<Longrightarrow> \<exists>n. sum_counts_not ''conversion_successful'' ar = Inr n"
proof (induction ar)
  case Nil
  show ?case by simp
next
  case (Cons p ar)
  obtain c rs where p: "p = (c, rs)" by (cases p)
  from Cons.prems have "\<forall>r \<in> set rs. has_key ''conversion_successful'' r" and "wf_results ar"
    by (simp_all add: p wf_results_Cons wf_outcome_def)
  then show ?case using Cons.IH by (auto simp: p count_if_not_total)
qed

lemma failed_docs_of_wf:
  "\<forall>r \<in> set rs. wf_outcome r \<Longrightarrow>
     \<exists>ds. failed_docs_of rs = Inr ds \<and> set ds \<subseteq> set rs"
proof (induction rs)
  case Nil
  show ?case by simp
next
  case (Cons r rs)
  then obtain ds where "failed_docs_of rs = Inr ds" and "set ds \<subseteq> set rs" by auto
  moreover from Cons.prems obtain v where "getitem r ''conversion_successful'' = Some v"
    by (auto simp: wf_outcome_def has_key_def)
  ultimately show ?case by (auto simp: get_or_raise_def)
qed

lemma file_names_of_wf:
  "\<forall>d \<in> set ds. wf_outcome d \<Longrightarrow>
     \<exists>names. file_names_of ds = Inr (map PStr names)"
proof (induction ds)
  case Nil
  show ?case by simp
next
  case (Cons d ds)
  then obtain names where "file_names_of ds = Inr (map PStr names)" by auto
  moreover from Cons.prems obtain s where "getitem d ''file_name'' = Some (PStr s)"
    by (auto simp: wf_outcome_def)
  ultimately have "file_names_of (d # ds) = Inr (map PStr (s # names))"
    by (simp add: get_or_raise_def)
  then show ?case by blast
qed

lemma join_names_strs: "join_names (map PStr names) = Inr names"
  by (induction names) simp_all

lemma failed_names_wf: "\<forall>r \<in> set rs. wf_outcome r \<Longrightarrow> \<exists>names. failed_names rs = Inr names"
proof -
  assume wf: "\<forall>r \<in> set rs. wf_outcome r"
  from failed_docs_of_wf [OF wf]
  obtain ds where ds: "failed_docs_of rs = Inr ds" and sub: "set ds \<subseteq> set rs" by blast
  from wf sub have "\<forall>d \<in> set ds. wf_outcome d" by blast
  from file_names_of_wf [OF this]
  obtain names where "file_names_of ds = Inr (map PStr names)" by blast
  with ds show ?thesis by (simp add: failed_names_def join_names_strs)
qed

lemma category_rate_total: "\<exists>x. category_rate a b = Inr x"
  using percent_positive [of b a] by (cases "b = 0") (auto simp: category_rate_def)

lemma category_breakdown_wf:
  "wf_results ar \<Longrightarrow> \<exists>lines. category_breakdown ar = Inr lines
      \<and> map cat_name lines = map fst ar
      \<and> map cat_total lines = map (\<lambda>(c, rs). length rs) ar
      \<and> map cat_successful lines = map (\<lambda>(c, rs). successes rs) ar"
proof (induction ar)
  case Nil
  show ?case by simp
next
  case (Cons p ar)
  obtain c rs where p: "p = (c, rs)" by (cases p)
  from Cons.prems have wf: "\<forall>r \<in> set rs. wf_outcome r" and "wf_results ar"
    by (simp_all add: p wf_results_Cons)
  with Cons.IH obtain lines where "category_breakdown ar = Inr lines"
      and "map cat_name lines = map fst ar"
      and "map cat_total lines = map (\<lambda>(c, rs). length rs) ar"
      and "map cat_successful lines = map (\<lambda>(c, rs). successes rs) ar"
    by blast
  moreover obtain names where "failed_names rs = Inr names"
    using failed_names_wf [OF wf] by blast
  moreover obtain x where "category_rate (successes rs) (length rs) = Inr x"
    using category_rate_total by blast
  ultimately show ?case by (simp add: p count_if_wf [OF wf])
qed

lemma getitem_wf: "wf_results ar \<Longrightarrow> getitem ar c = Some rs \<Longrightarrow> \<forall>r \<in> set rs. wf_outcome r"
  by (auto simp: wf_results_def getitem_def dest!: map_of_SomeD)

lemma check_critical_wf:
  "wf_results ar \<Longrightarrow> \<exists>b. check_critical ar cs acc = Inr b"
proof (induction cs arbitrary: acc)
  case Nil
  show ?case by simp
next
  case (Cons c cs)
  show ?case
  proof (cases "getitem ar c")
    case None
    with Cons show ?thesis by simp
  next
    case (Some rs)
    with Cons.prems have "\<forall>r \<in> set rs. wf_outcome r" by (rule_tac getitem_wf)
    with Some Cons show ?thesis by (simp add: count_if_wf)
  qed
qed

lemma ocr_totals_wf:
  "wf_results ar \<Longrightarrow> \<exists>a b. ocr_totals ar cs acc = Inr (a, b)"
proof (induction cs arbitrary: acc)
  case Nil
  show ?case by (cases acc) simp
next
  case (Cons c cs)
  obtain s t where acc: "acc = (s, t)" by (cases acc)
  show ?case
  proof (cases "getitem ar c")
    case None
    with Cons acc show ?thesis by simp
  next
    case (Some rs)
    with Cons.prems have "\<forall>r \<in> set rs. wf_outcome r" by (rule_tac getitem_wf)
    with Some Cons acc show ?thesis by (simp add: count_if_wf)
  qed
qed

lemma generate_kmrl_report_wf:
  assumes wf: "wf_results ar"
    and cli: "\<forall>r \<in> set cli_results. has_key ''cli_successful'' r"
    and pos: "0 < total_documents_of ar"
  shows "\<exists>rep. generate_kmrl_report ar cli_results = Inr rep
      \<and> rep_total_documents rep = total_documents_of ar
      \<and> rep_total_successful rep = sum_list (map (\<lambda>(c, rs). successes rs) ar)
      \<and> map cat_name (rep_breakdown rep) = map fst ar
      \<and> map cat_total (rep_breakdown rep) = map (\<lambda>(c, rs). length rs) ar
      \<and> map cat_successful (rep_breakdown rep) = map (\<lambda>(c, rs). successes rs) ar"
proof -
  let ?ts = "sum_list (map (\<lambda>(c, rs). successes rs) ar)"
  have s1: "sum_counts ''conversion_successful'' ar = Inr ?ts"
    by (rule sum_counts_wf [OF wf])
  obtain overall where s2: "percent ?ts (total_documents_of ar) = Inr overall"
    using percent_positive [OF pos] by blast
  obtain lines where s3: "category_breakdown ar = Inr lines"
      and l1: "map cat_name lines = map fst ar"
      and l2: "map cat_total lines = map (\<lambda>(c, rs). length rs) ar"
      and l3: "map cat_successful lines = map (\<lambda>(c, rs). successes rs) ar"
    using category_breakdown_wf [OF wf] by blast
  obtain cli where s4: "(if cli_results \<noteq> [] then
               (case count_if ''cli_successful'' cli_results of
                  Inl e \<Rightarrow> Inl e
                | Inr cli_successful \<Rightarrow>
                    (case percent cli_successful (length cli_results) of
                       Inl e \<Rightarrow> Inl e
                     | Inr x \<Rightarrow> Inr (Some (cli_successful, length cli_results, x))))
             else Inr None) = Inr cli"
  proof (cases "cli_results = []")
    case True
    then show ?thesis using that by simp
  next
    case False
    then have "0 < length cli_results" by simp
    then obtain x where "percent (length (filter (truthy_at ''cli_successful'') cli_results))
                           (length cli_results) = Inr x"
      using percent_positive by blast
    with False show ?thesis using that by (simp add: count_if_total [OF cli])
  qed
  obtain critical_success where s5: "check_critical ar critical_categories True = Inr critical_success"
    using check_critical_wf [OF wf] by blast
  obtain ocr_success ocr_total where s6: "ocr_totals ar ocr_categories (0, 0) = Inr (ocr_success, ocr_total)"
    using ocr_totals_wf [OF wf] by blast
  obtain ocr where s7: "(if ocr_total > 0 then
               (case percent ocr_success ocr_total of
                  Inl e \<Rightarrow> Inl e
                | Inr ocr_rate \<Rightarrow>
                    Inr (Some (ocr_success, ocr_total, ocr_rate, float_ge_int ocr_rate 50)))
             else Inr None) = Inr ocr"
  proof (cases "ocr_total > 0")
    case True
    then obtain x where "percent ocr_success ocr_total = Inr x"
      using percent_positive by blast
    with True show ?thesis using that by simp
  next
    case False
    then show ?thesis using that by simp
  qed
  obtain eng where s8: "(case getitem ar ''engineering_drawing'' of
               None \<Rightarrow> Inr None
             | Some eng_results \<Rightarrow>
                 (case count_if ''conversion_successful'' eng_results of
                    Inl e \<Rightarrow> Inl e
                  | Inr eng_successful \<Rightarrow> Inr (Some (eng_successful, length eng_results)))) = Inr eng"
  proof (cases "getitem ar ''engineering_drawing''")
    case None
    then show ?thesis using that by simp
  next
    case (Some rs)
    with wf have "\<forall>r \<in> set rs. wf_outcome r" by (rule_tac getitem_wf)
    with Some show ?thesis using that by (simp add: count_if_wf)
  qed
  show ?thesis
    by (simp only: generate_kmrl_report_def Let_def s1 s2 s3 s4 s5 s6 s7 s8
          sum.case prod.case)
       (simp add: l1 l2 l3)
qed

lemma length_cli_answers: "length (cli_answers env ps x) = length ps"
  by (induction ps arbitrary: x) (auto split: prod.splits)

lemma cli_each_eq:
  "cli_each env es cli_results w =
     (cli_results @ map2 cli_outcome es (map fst (cli_answers env (map path_str es) (ext w))),
      w\<lparr> ext := cli_leaves env (map path_str es) (ext w),
         cli_calls := cli_calls w @ map (\<lambda>e. (path_str e, 30)) es \<rparr>)"
proof (induction es arbitrary: cli_results w)
  case Nil
  show ?case by simp
next
  case (Cons e es)
  show ?case
    by (simp add: call_cli_def Cons.IH split: prod.splits)
qed

lemma cli_collect_eq:
  "length acc < 3 \<Longrightarrow>
     cli_collect es acc = acc @ take (3 - length acc) (filter cli_suffix_ok es)"
proof (induction es arbitrary: acc)
  case Nil
  show ?case by simp
next
  case (Cons e es)
  show ?case
  proof (cases "cli_suffix_ok e")
    case False
    with Cons show ?thesis by simp
  next
    case True
    show ?thesis
    proof (cases "length acc = 2")
      case two: True
      with True show ?thesis by (simp add: Let_def)
    next
      case False
      with Cons.prems have short: "length (acc @ [e]) < 3" by simp
      from Cons.prems obtain n where n: "3 - length acc = Suc n" and n': "3 - length (acc @ [e]) = n"
        by (cases "3 - length acc") auto
      from True short Cons.IH [OF short] n n' show ?thesis by (simp add: Let_def)
    qed
  qed
qed

lemma test_cli_interface_eq:
  "test_cli_interface env (Some entries) w = cli_each env (cli_selected entries) [] w"
  by (cases "filter cli_suffix_ok entries = []")
     (simp_all add: test_cli_interface_def cli_collect_eq cli_selected_def Let_def)

lemma cli_outcome_has_key: "has_key ''cli_successful'' (cli_outcome e r)"
  by (cases r) (simp_all add: cli_outcome_def has_key_def getitem_def)

lemma test_cli_interface_keys:
  "\<forall>r \<in> set (fst (test_cli_interface env listing w)). has_key ''cli_successful'' r"
proof (cases listing)
  case None
  then show ?thesis by (simp add: test_cli_interface_def)
next
  case (Some entries)
  then show ?thesis
    by (auto simp: test_cli_interface_eq cli_each_eq cli_outcome_has_key dest!: set_zip_leftD)
qed

lemma test_cli_interface_convert_calls:
  "convert_calls (snd (test_cli_interface env listing w)) = convert_calls w"
proof (cases listing)
  case None
  then show ?thesis by (simp add: test_cli_interface_def)
next
  case (Some entries)
  then show ?thesis by (simp add: test_cli_interface_eq cli_each_eq)
qed

lemma run_categories_ok:
  assumes "distinct (map fst documents)"
    and "set (map fst documents) \<inter> set (map fst acc) = {}"
    and "[] \<notin> set (map snd documents)"
  shows "\<exists>new w1. run_categories env documents acc w = (Inr (acc @ new), acc @ new, w1)
      \<and> corresponds documents new \<and> wf_results new
      \<and> cli_calls w1 = cli_calls w
      \<and> convert_calls w1 = convert_calls w @ concat (map (\<lambda>(c, ds). map doc_path ds) documents)"
  using assms
proof (induction documents arbitrary: acc w)
  case Nil
  show ?case by (simp add: corresponds_def wf_results_Nil)
next
  case (Cons p documents)
  obtain c ds where p: "p = (c, ds)" by (cases p)
  from Cons.prems p have ne: "ds \<noteq> []" and absent: "c \<notin> set (map fst acc)"
    and d: "distinct (map fst documents)" and c: "c \<notin> set (map fst documents)"
    and nonempty: "[] \<notin> set (map snd documents)"
    by auto
  let ?rs = "map2 (outcome_of env c) ds (converter_answers env (map doc_path ds) (ext w))"
  let ?w = "w\<lparr> ext := converter_leaves env (map doc_path ds) (ext w),
                convert_calls := convert_calls w @ map doc_path ds \<rparr>"
  have step: "test_category env c ds w = (Inr ?rs, ?w)"
    by (rule test_category_eq [OF ne])
  have disj: "set (map fst documents) \<inter> set (map fst (acc @ [(c, ?rs)])) = {}"
    using Cons.prems(2) c p by auto
  from Cons.IH [of "acc @ [(c, ?rs)]" ?w, OF d disj nonempty]
  obtain new w1 where run: "run_categories env documents (acc @ [(c, ?rs)]) ?w
        = (Inr ((acc @ [(c, ?rs)]) @ new), (acc @ [(c, ?rs)]) @ new, w1)"
    and corr: "corresponds documents new" and wf: "wf_results new"
    and cli: "cli_calls w1 = cli_calls ?w"
    and conv: "convert_calls w1 = convert_calls ?w @ concat (map (\<lambda>(c, ds). map doc_path ds) documents)"
    by blast
  have wf_rs: "\<forall>r \<in> set ?rs. wf_outcome r"
    by (auto simp: outcome_of_wf dest!: set_zip_leftD)
  have "run_categories env (p # documents) acc w = (Inr (acc @ (c, ?rs) # new), acc @ (c, ?rs) # new, w1)"
    using run by (simp add: p step setitem_absent [OF absent])
  moreover have "corresponds (p # documents) ((c, ?rs) # new)"
    using corr by (simp add: corresponds_def p length_converter_answers)
  moreover have "wf_results ((c, ?rs) # new)"
    using wf wf_rs by (simp add: wf_results_Cons)
  moreover have "cli_calls w1 = cli_calls w" using cli by simp
  moreover have "convert_calls w1 = convert_calls w @ concat (map (\<lambda>(c, ds). map doc_path ds) (p # documents))"
    using conv by (simp add: p)
  ultimately show ?case by blast
qed

lemma corresponds_total:
  "corresponds documents ar \<Longrightarrow> total_documents_of ar = length (concat (map snd documents))"
  unfolding corresponds_def total_documents_of_def
  by (induction documents ar rule: list_all2_induct) (auto simp: length_concat)

lemma corresponds_lengths:
  "corresponds documents ar \<Longrightarrow>
     map fst ar = map fst documents \<and>
     map (\<lambda>(c, rs). length rs) ar = map (\<lambda>(c, ds). length ds) documents"
  unfolding corresponds_def
  by (induction documents ar rule: list_all2_induct) auto

lemma documents_empty_iff:
  "get_test_documents (Some entries) = [] \<longleftrightarrow> filter is_file entries = []"
proof
  assume "get_test_documents (Some entries) = []"
  with get_test_documents_mset [of entries] show "filter is_file entries = []" by simp
next
  assume "filter is_file entries = []"
  with get_test_documents_mset [of entries]
  have "concat (map snd (get_test_documents (Some entries))) = []" by simp
  then have empty: "\<forall>ds \<in> set (map snd (get_test_documents (Some entries))). ds = []" by simp
  have nonempty: "[] \<notin> set (map snd (get_test_documents (Some entries)))"
    using get_test_documents_inv [of "Some entries"] by (simp add: scan_inv_def)
  show "get_test_documents (Some entries) = []"
  proof (cases "get_test_documents (Some entries)")
    case Nil
    then show ?thesis .
  next
    case (Cons p ps)
    then have "snd p \<in> set (map snd (get_test_documents (Some entries)))" by simp
    with empty nonempty show ?thesis by metis
  qed
qed

lemma scan_count:
  "length (concat (map snd (get_test_documents (Some entries)))) = length (filter is_file entries)"
  using mset_eq_length [OF get_test_documents_mset [of entries]] by simp

lemma report_data_wf:
  "wf_results ar \<Longrightarrow> \<exists>data. report_data env ar cli_results timestamp = Inr data"
  using sum_counts_wf [of ar] sum_counts_not_wf [of ar]
  by (auto simp: report_data_def)

lemma main_run:
  assumes importable: "docling_importable env"
    and some: "filter is_file entries \<noteq> []"
  shows "\<exists>ar cli_results rep w1 w2 data.
      run_categories env (get_test_documents (Some entries)) [] w = (Inr ar, ar, w1)
    \<and> corresponds (get_test_documents (Some entries)) ar
    \<and> wf_results ar
    \<and> generate_kmrl_report ar cli_results = Inr rep
    \<and> rep_total_documents rep = length (filter is_file entries)
    \<and> map cat_name (rep_breakdown rep) = map fst ar
    \<and> map cat_total (rep_breakdown rep) = map (\<lambda>(c, rs). length rs) ar
    \<and> test_cli_interface env (Some entries) w1 = (cli_results, w2)
    \<and> convert_calls w2 =
         convert_calls w @ concat (map (\<lambda>(c, ds). map doc_path ds) (get_test_documents (Some entries)))
    \<and> report_data env ar cli_results (now_isoformat env (ext w2)) = Inr data
    \<and> (\<forall>fault file. main env (Some entries) fault w file =
          \<lparr> fin_exit = (case fst (write_report_file fault (json_dumps data) file) of
                          Inl e \<Rightarrow> Uncaught e | Inr u \<Rightarrow> Completed_run),
            fin_all_results = ar, fin_cli_results = cli_results, fin_report = Some rep,
            fin_world = w2,
            fin_file = snd (write_report_file fault (json_dumps data) file) \<rparr>)"
proof -
  let ?docs = "get_test_documents (Some entries)"
  have ne: "?docs \<noteq> []" using some by (simp add: documents_empty_iff)
  have inv: "distinct (map fst ?docs)" "[] \<notin> set (map snd ?docs)"
    using get_test_documents_inv [of "Some entries"] by (simp_all add: scan_inv_def)
  have "set (map fst ?docs) \<inter> set (map fst ([] :: all_results)) = {}" by simp
  from run_categories_ok [OF inv(1) this inv(2), of env w]
  obtain ar w1 where run: "run_categories env ?docs [] w = (Inr ar, ar, w1)"
    and corr: "corresponds ?docs ar" and wf: "wf_results ar"
    and cli1: "cli_calls w1 = cli_calls w"
    and conv1: "convert_calls w1 = convert_calls w @ concat (map (\<lambda>(c, ds). map doc_path ds) ?docs)"
    by auto
  obtain cli_results w2 where cli: "test_cli_interface env (Some entries) w1 = (cli_results, w2)"
    by (cases "test_cli_interface env (Some entries) w1")
  have keys: "\<forall>r \<in> set cli_results. has_key ''cli_successful'' r"
    using test_cli_interface_keys [of env "Some entries" w1] cli by simp
  have total: "total_documents_of ar = length (filter is_file entries)"
    using corresponds_total [OF corr] by (simp add: scan_count)
  with some have pos: "0 < total_documents_of ar" by simp
  from generate_kmrl_report_wf [OF wf keys pos]
  obtain rep where rep: "generate_kmrl_report ar cli_results = Inr rep"
    and rep_total: "rep_total_documents rep = total_documents_of ar"
    and rep_names: "map cat_name (rep_breakdown rep) = map fst ar"
    and rep_lines: "map cat_total (rep_breakdown rep) = map (\<lambda>(c, rs). length rs) ar"
    by blast
  obtain data where data: "report_data env ar cli_results (now_isoformat env (ext w2)) = Inr data"
    using report_data_wf [OF wf] by blast
  have conv2: "convert_calls w2 = convert_calls w1"
    using test_cli_interface_convert_calls [of env "Some entries" w1] cli by simp
  have "main env (Some entries) fault w old =
          \<lparr> fin_exit = (case fst (write_report_file fault (json_dumps data) old) of
                          Inl e \<Rightarrow> Uncaught e | Inr u \<Rightarrow> Completed_run),
            fin_all_results = ar, fin_cli_results = cli_results, fin_report = Some rep,
            fin_world = w2,
            fin_file = snd (write_report_file fault (json_dumps data) old) \<rparr>" for fault old
  proof -
    obtain res file1 where wr: "write_report_file fault (json_dumps data) old = (res, file1)"
      by (cases "write_report_file fault (json_dumps data) old")
    have "save_results env ar cli_results fault w2 old = (res, file1)"
      by (simp add: save_results_def data wr)
    then show ?thesis
      unfolding main_def Let_def
      by (cases res) (simp_all add: importable ne run cli rep wr)
  qed
  with run corr wf rep rep_total rep_names rep_lines total cli conv1 conv2 data show ?thesis
    by (intro exI [of _ ar] exI [of _ cli_results] exI [of _ rep] exI [of _ w1] exI [of _ w2]
          exI [of _ data]) simp
qed

section \<open>Classification\<close>

text \<open>
  Claim C1. The category that the scan gives a file is the one the specification's
  ordered rule table gives it, first match first, on the lower-cased name and
  extension: an image extension with \<open>mal\<close> in the name is \<open>malayalam_ocr\<close>, else with
  \<open>handwrite\<close> or \<open>handwritten\<close> it is \<open>handwritten_ocr\<close>, else with \<open>scan\<close> it is
  \<open>scanned_document\<close>, else \<open>image_ocr\<close>; \<open>.dwg\<close>, \<open>.docx\<close>, \<open>.pptx\<close> and \<open>.csv\<close> give
  their categories, and every other file is \<open>other\<close>. The category is a function of
  the name and the extension alone, defined for every file, and always one of the
  nine labels.
\<close>

theorem classify_first_match:
  "category_of e = spec_classify e \<and> category_of e \<in> set all_categories"
  by (simp add: category_of_def spec_classify_def classify_def spec_rules_def
      spec_image_ext_def all_categories_def)

theorem classify_first_match_witness:
  "category_of \<lparr>ent_name = ''Normal_Scan.PNG'', ent_suffix = ''.PNG'',
                 ent_node = RegularFile, ent_size = 1\<rparr> = ''malayalam_ocr'' \<and>
   spec_classify \<lparr>ent_name = ''Normal_Scan.PNG'', ent_suffix = ''.PNG'',
                   ent_node = RegularFile, ent_size = 1\<rparr> = ''malayalam_ocr''"
proof -
  have "category_of \<lparr>ent_name = ''Normal_Scan.PNG'', ent_suffix = ''.PNG'',
                 ent_node = RegularFile, ent_size = 1\<rparr> = ''malayalam_ocr''"
    by code_simp
  then show ?thesis
    using classify_first_match [of "\<lparr>ent_name = ''Normal_Scan.PNG'', ent_suffix = ''.PNG'',
                 ent_node = RegularFile, ent_size = 1\<rparr>"]
    by simp
qed

section \<open>Conversion outcomes\<close>

lemma py_strip_nonempty_iff: "py_strip s \<noteq> [] \<longleftrightarrow> (\<exists>c \<in> set s. \<not> py_isspace c)"
proof -
  have "py_strip s = [] \<longleftrightarrow> dropWhile py_isspace s = []"
    by (simp add: py_strip_def dropWhile_eq_Nil_conv)
       (metis dropWhile_eq_Nil_conv hd_dropWhile list.set_sel(1) set_dropWhileD)
  then show ?thesis by (auto simp: dropWhile_eq_Nil_conv)
qed

text \<open>
  Claim C3. A failure of the converter stays inside the attempt for its file. For a
  category with at least one document, \<open>test_category\<close> returns one outcome per
  document, in order, whichever calls of the converter raise; the converter is called
  exactly once per document, with that document's path; and the outcome of a call that
  raised is a failure outcome that carries the message and the kind of the exception.
\<close>

theorem conversion_failure_is_recorded:
  assumes "docs \<noteq> []"
  shows "\<exists>rs w1. test_category env category docs w = (Inr rs, w1)
      \<and> length rs = length docs
      \<and> convert_calls w1 = convert_calls w @ map doc_path docs
      \<and> (\<forall>i < length docs.
            getitem (rs ! i) ''file_name'' = Some (PStr (doc_name (docs ! i)))
          \<and> (\<forall>error_type message x.
                converter_answers env (map doc_path docs) (ext w) ! i = (Raised error_type message, x) \<longrightarrow>
                  getitem (rs ! i) ''conversion_successful'' = Some (PBool False)
                \<and> getitem (rs ! i) ''error'' = Some (PStr message)
                \<and> getitem (rs ! i) ''error_type'' = Some (PStr error_type)))"
proof -
  let ?as = "converter_answers env (map doc_path docs) (ext w)"
  let ?rs = "map2 (outcome_of env category) docs ?as"
  have len: "length ?as = length docs" by (simp add: length_converter_answers)
  have nth: "?rs ! i = outcome_of env category (docs ! i) (?as ! i)" if "i < length docs" for i
    using that len by simp
  have name: "getitem (outcome_of env category d a) ''file_name'' = Some (PStr (doc_name d))" for d a
  proof -
    obtain r x where a: "a = (r, x)" by (cases a)
    show ?thesis
      by (cases r) (simp_all add: a outcome_of_def getitem_def success_info_def error_info_def)
  qed
  have failed: "getitem (outcome_of env category d (Raised t m, x)) ''conversion_successful'' = Some (PBool False)
      \<and> getitem (outcome_of env category d (Raised t m, x)) ''error'' = Some (PStr m)
      \<and> getitem (outcome_of env category d (Raised t m, x)) ''error_type'' = Some (PStr t)" for d t m x
    by (simp add: outcome_of_def getitem_def error_info_def)
  show ?thesis
    unfolding test_category_eq [OF assms]
    using len nth name failed by (intro exI [of _ ?rs] exI) auto
qed

theorem conversion_failure_is_recorded_witness:
  "[demo_doc ''drawing.dwg'' ''.dwg'', demo_doc ''plan.dwg'' ''.dwg''] \<noteq> []
   \<and> (\<exists>rs w1. test_category demo_env ''engineering_drawing''
          [demo_doc ''drawing.dwg'' ''.dwg'', demo_doc ''plan.dwg'' ''.dwg''] demo_world = (Inr rs, w1)
        \<and> length rs = 2
        \<and> convert_calls w1 = [''test-docs/drawing.dwg'', ''test-docs/plan.dwg'']
        \<and> getitem (rs ! 0) ''error'' = Some (PStr ''unsupported format'')
        \<and> getitem (rs ! 0) ''error_type'' = Some (PStr ''ValueError'')
        \<and> getitem (rs ! 1) ''conversion_successful'' = Some (PBool True))"
proof -
  let ?docs = "[demo_doc ''drawing.dwg'' ''.dwg'', demo_doc ''plan.dwg'' ''.dwg'']"
  have ne: "?docs \<noteq> []" by simp
  have ev: "map2 (outcome_of demo_env ''engineering_drawing'') ?docs
               (converter_answers demo_env (map doc_path ?docs) (ext demo_world)) =
      [error_info ''engineering_drawing'' (demo_doc ''drawing.dwg'' ''.dwg'')
              ''ValueError'' ''unsupported format'' ''t'',
       success_info ''engineering_drawing'' (demo_doc ''plan.dwg'' ''.dwg'')
              ''# md'' '' text '' ''tt'']"
    by (simp add: demo_env_def demo_world_def demo_doc_def outcome_of_def)
  have paths: "map doc_path ?docs = [''test-docs/drawing.dwg'', ''test-docs/plan.dwg'']"
    by (simp add: demo_doc_def)
  have calls: "convert_calls demo_world = []"
    by (simp add: demo_world_def)
  from conversion_failure_is_recorded [OF ne, of demo_env "''engineering_drawing''" demo_world]
  obtain rs w1 where run: "test_category demo_env ''engineering_drawing'' ?docs demo_world = (Inr rs, w1)"
    and len: "length rs = length ?docs"
    and log: "convert_calls w1 = convert_calls demo_world @ map doc_path ?docs"
    by blast
  from run have "rs = map2 (outcome_of demo_env ''engineering_drawing'') ?docs
               (converter_answers demo_env (map doc_path ?docs) (ext demo_world))"
    unfolding test_category_eq [OF ne] by simp
  with ev have rs: "rs = [error_info ''engineering_drawing'' (demo_doc ''drawing.dwg'' ''.dwg'')
              ''ValueError'' ''unsupported format'' ''t'',
       success_info ''engineering_drawing'' (demo_doc ''plan.dwg'' ''.dwg'')
              ''# md'' '' text '' ''tt'']"
    by simp
  have "getitem (rs ! 0) ''error'' = Some (PStr ''unsupported format'')
        \<and> getitem (rs ! 0) ''error_type'' = Some (PStr ''ValueError'')
        \<and> getitem (rs ! 1) ''conversion_successful'' = Some (PBool True)"
    unfolding rs by (simp add: getitem_def error_info_def success_info_def)
  with run len log paths calls ne show ?thesis by simp
qed

text \<open>
  Claim C4. An outcome of a successful conversion has exactly the keys \<open>file_name\<close>,
  \<open>category\<close>, \<open>file_size\<close>, \<open>conversion_successful\<close>, \<open>markdown_length\<close>,
  \<open>text_length\<close>, \<open>has_content\<close>, \<open>preview\<close> and \<open>timestamp\<close>: the lengths are the
  character counts of the two renderings, \<open>has_content\<close> says whether the stripped
  text is non-empty, and \<open>preview\<close> is the whole text when it has at most 200
  characters and otherwise its first 200 characters followed by three dots. An outcome
  of a failed conversion has exactly the keys \<open>file_name\<close>, \<open>category\<close>,
  \<open>file_size\<close>, \<open>conversion_successful\<close>, \<open>error\<close>, \<open>error_type\<close> and \<open>timestamp\<close>.
\<close>

theorem outcome_fields:
  "(case converter env file_path (ext w) of
      (Converted markdown_content text_content, x) \<Rightarrow>
        (let r = fst (test_document_conversion env file_path category doc w)
         in map fst r = [''file_name'', ''category'', ''file_size'', ''conversion_successful'',
                         ''markdown_length'', ''text_length'', ''has_content'', ''preview'',
                         ''timestamp'']
          \<and> getitem r ''file_name'' = Some (PStr (doc_name doc))
          \<and> getitem r ''category'' = Some (PStr category)
          \<and> getitem r ''file_size'' = Some (PInt (doc_size doc))
          \<and> getitem r ''conversion_successful'' = Some (PBool True)
          \<and> getitem r ''markdown_length'' = Some (PInt (int (length markdown_content)))
          \<and> getitem r ''text_length'' = Some (PInt (int (length text_content)))
          \<and> getitem r ''has_content'' = Some (PBool (py_strip text_content \<noteq> []))
          \<and> getitem r ''preview'' =
                Some (PStr (if length text_content \<le> 200 then text_content
                            else take 200 text_content @ ''...''))
          \<and> getitem r ''timestamp'' = Some (PStr (now_isoformat env x)))
    | (Raised error_type message, x) \<Rightarrow>
        (let r = fst (test_document_conversion env file_path category doc w)
         in map fst r = [''file_name'', ''category'', ''file_size'', ''conversion_successful'',
                         ''error'', ''error_type'', ''timestamp'']
          \<and> getitem r ''file_name'' = Some (PStr (doc_name doc))
          \<and> getitem r ''category'' = Some (PStr category)
          \<and> getitem r ''file_size'' = Some (PInt (doc_size doc))
          \<and> getitem r ''conversion_successful'' = Some (PBool False)
          \<and> getitem r ''error'' = Some (PStr message)
          \<and> getitem r ''error_type'' = Some (PStr error_type)
          \<and> getitem r ''timestamp'' = Some (PStr (now_isoformat env x))))"
proof -
  obtain a x where ans: "converter env file_path (ext w) = (a, x)"
    by (cases "converter env file_path (ext w)")
  show ?thesis
  proof (cases a)
    case (Converted markdown_content text_content)
    with ans show ?thesis
      by (simp add: test_document_conversion_eq outcome_of_def success_info_def getitem_def
          preview_of_def Let_def)
  next
    case (Raised error_type message)
    with ans show ?thesis
      by (simp add: test_document_conversion_eq outcome_of_def error_info_def getitem_def Let_def)
  qed
qed

theorem outcome_fields_witness:
  "getitem (fst (test_document_conversion demo_env ''test-docs/plan.dwg'' ''engineering_drawing''
                   (demo_doc ''plan.dwg'' ''.dwg'') demo_world)) ''has_content'' = Some (PBool True)
   \<and> getitem (fst (test_document_conversion demo_env ''test-docs/plan.dwg'' ''engineering_drawing''
                   (demo_doc ''plan.dwg'' ''.dwg'') demo_world)) ''text_length'' = Some (PInt 6)
   \<and> getitem (fst (test_document_conversion demo_env ''test-docs/drawing.dwg'' ''engineering_drawing''
                   (demo_doc ''drawing.dwg'' ''.dwg'') demo_world)) ''error_type''
        = Some (PStr ''ValueError'')"
proof -
  have c1: "converter demo_env ''test-docs/plan.dwg'' (ext demo_world)
              = (Converted ''# md'' '' text '', 1)"
    by (simp add: demo_env_def demo_world_def)
  have c2: "converter demo_env ''test-docs/drawing.dwg'' (ext demo_world)
              = (Raised ''ValueError'' ''unsupported format'', 1)"
    by (simp add: demo_env_def demo_world_def)
  have strip: "py_strip '' text '' \<noteq> []"
    by (simp add: py_strip_nonempty_iff py_isspace_def)
  show ?thesis
    using outcome_fields [where env = demo_env and file_path = "''test-docs/plan.dwg''"
                            and w = demo_world and category = "''engineering_drawing''"
                            and doc = "demo_doc ''plan.dwg'' ''.dwg''"]
          outcome_fields [where env = demo_env and file_path = "''test-docs/drawing.dwg''"
                            and w = demo_world and category = "''engineering_drawing''"
                            and doc = "demo_doc ''drawing.dwg'' ''.dwg''"]
    by (simp add: c1 c2 strip Let_def)
qed

section \<open>The directory scan\<close>

lemma total_documents_of_breakdown:
  "map cat_total ls = map (\<lambda>(c, rs). length rs) ar \<Longrightarrow> sum_list (map cat_total ls) = total_documents_of ar"
  by (simp add: total_documents_of_def)

text \<open>
  Claim C10. Every category of the grouping that the scan returns holds at least one
  document, so \<open>test_category\<close>, run on a category of the scan, never divides by zero:
  it returns its results.
\<close>

theorem scan_groups_nonempty:
  "\<forall>(category, docs) \<in> set (get_test_documents listing).
      docs \<noteq> [] \<and> (\<exists>results w1. test_category env category docs w = (Inr results, w1))"
proof -
  have "[] \<notin> set (map snd (get_test_documents listing))"
    using get_test_documents_inv [of listing] by (simp add: scan_inv_def)
  then have "docs \<noteq> []" if "(category, docs) \<in> set (get_test_documents listing)" for category docs
    using that by force
  then show ?thesis
    using test_category_eq by blast
qed

theorem scan_groups_nonempty_witness:
  "get_test_documents (Some [demo_entry ''data.csv'' ''.csv'' RegularFile,
                             demo_entry ''notes'' [] Directory,
                             demo_entry ''more.CSV'' ''.CSV'' RegularFile])
     = [(''data_file'', [make_doc_info (demo_entry ''data.csv'' ''.csv'' RegularFile),
                         make_doc_info (demo_entry ''more.CSV'' ''.CSV'' RegularFile)])]
   \<and> (\<exists>results w1.
         test_category demo_env ''data_file''
           [make_doc_info (demo_entry ''data.csv'' ''.csv'' RegularFile),
            make_doc_info (demo_entry ''more.CSV'' ''.CSV'' RegularFile)] demo_world
         = (Inr results, w1))"
proof -
  let ?listing = "Some [demo_entry ''data.csv'' ''.csv'' RegularFile,
                        demo_entry ''notes'' [] Directory,
                        demo_entry ''more.CSV'' ''.CSV'' RegularFile]"
  have scan: "get_test_documents ?listing
     = [(''data_file'', [make_doc_info (demo_entry ''data.csv'' ''.csv'' RegularFile),
                         make_doc_info (demo_entry ''more.CSV'' ''.CSV'' RegularFile)])]"
    by code_simp
  show ?thesis
    using scan_groups_nonempty [of ?listing demo_env demo_world] scan by simp
qed

text \<open>
  Claim C2, as stated, fails: \<open>is_file()\<close> follows symbolic links, so a link to a
  regular file becomes a record and is counted. For a directory that holds one such
  link and no regular file, the scan returns one record and the report counts one
  document.
\<close>

theorem scan_takes_symlinks_counterexample:
  "length (filter is_regular_file [demo_link]) = 0
   \<and> length (concat (map snd (get_test_documents (Some [demo_link])))) = 1
   \<and> map_option rep_total_documents
        (fin_report (main demo_env (Some [demo_link]) NoFault demo_world None)) = Some 1"
proof -
  have files: "filter is_file [demo_link] = [demo_link]"
    by (simp add: demo_link_def demo_entry_def is_file_def)
  have imp: "docling_importable demo_env"
    by (simp add: demo_env_def)
  have ne: "filter is_file [demo_link] \<noteq> []"
    unfolding files by simp
  from main_run [OF imp ne, of demo_world]
  obtain rep where "rep_total_documents rep = length (filter is_file [demo_link])"
    and "fin_report (main demo_env (Some [demo_link]) NoFault demo_world None) = Some rep"
    by force
  moreover have "length (filter is_regular_file [demo_link]) = 0"
    by (simp add: demo_link_def demo_entry_def is_regular_file_def)
  ultimately show ?thesis
    unfolding scan_count files by simp
qed

text \<open>
  Claim C2, amended. The scan turns every entry of the directory for which \<open>is_file()\<close>
  holds (a regular file, or a symbolic link that resolves to one) into exactly one
  record, and no other entry into any; it does not descend into subdirectories. When
  the run reaches its report, the total document count of the report, which is the sum
  of the per-category counts, is the number of those entries.
\<close>

theorem scan_records_every_file:
  "mset (concat (map snd (get_test_documents (Some entries))))
     = mset (map make_doc_info (filter is_file entries))
   \<and> (docling_importable env \<and> filter is_file entries \<noteq> [] \<longrightarrow>
        (\<exists>rep. fin_report (main env (Some entries) fault w file) = Some rep
           \<and> rep_total_documents rep = length (filter is_file entries)
           \<and> sum_list (map cat_total (rep_breakdown rep)) = length (filter is_file entries)))"
proof (intro conjI impI)
  show "mset (concat (map snd (get_test_documents (Some entries))))
          = mset (map make_doc_info (filter is_file entries))"
    by (rule get_test_documents_mset)
next
  assume a: "docling_importable env \<and> filter is_file entries \<noteq> []"
  then have imp: "docling_importable env" and ne: "filter is_file entries \<noteq> []" by simp_all
  from main_run [OF imp ne, of w]
  obtain ar rep where corr: "corresponds (get_test_documents (Some entries)) ar"
    and total: "rep_total_documents rep = length (filter is_file entries)"
    and lines: "map cat_total (rep_breakdown rep) = map (\<lambda>(c, rs). length rs) ar"
    and fin: "fin_report (main env (Some entries) fault w file) = Some rep"
    by force
  have "sum_list (map cat_total (rep_breakdown rep)) = total_documents_of ar"
    by (rule total_documents_of_breakdown [OF lines])
  also have "\<dots> = length (filter is_file entries)"
    using corresponds_total [OF corr] by (simp add: scan_count)
  finally show "\<exists>rep. fin_report (main env (Some entries) fault w file) = Some rep
           \<and> rep_total_documents rep = length (filter is_file entries)
           \<and> sum_list (map cat_total (rep_breakdown rep)) = length (filter is_file entries)"
    using fin total by blast
qed

theorem scan_records_every_file_witness:
  "mset (concat (map snd (get_test_documents (Some [demo_link, demo_entry ''notes'' [] Directory]))))
     = {# make_doc_info demo_link #}
   \<and> docling_importable demo_env
   \<and> filter is_file [demo_link, demo_entry ''notes'' [] Directory] \<noteq> []
   \<and> (\<exists>rep. fin_report (main demo_env (Some [demo_link, demo_entry ''notes'' [] Directory])
                            NoFault demo_world None) = Some rep
          \<and> rep_total_documents rep = 1
          \<and> sum_list (map cat_total (rep_breakdown rep)) = 1)"
proof -
  have files: "filter is_file [demo_link, demo_entry ''notes'' [] Directory] = [demo_link]"
    by (simp add: demo_link_def demo_entry_def is_file_def)
  have imp: "docling_importable demo_env"
    by (simp add: demo_env_def)
  show ?thesis
    using scan_records_every_file [of "[demo_link, demo_entry ''notes'' [] Directory]"
            demo_env NoFault demo_world None] imp
    unfolding files by simp
qed

section \<open>The command-line exercise\<close>

lemma test_cli_interface_run:
  "test_cli_interface env (Some entries) w =
     (map2 cli_outcome (cli_selected entries)
        (map fst (cli_answers env (map path_str (cli_selected entries)) (ext w))),
      w\<lparr> ext := cli_leaves env (map path_str (cli_selected entries)) (ext w),
         cli_calls := cli_calls w @ map (\<lambda>e. (path_str e, 30)) (cli_selected entries) \<rparr>)"
  by (simp add: test_cli_interface_eq cli_each_eq)

lemma cli_result_nth:
  "i < length (cli_selected entries) \<Longrightarrow>
     fst (test_cli_interface env (Some entries) w) ! i =
       cli_outcome (cli_selected entries ! i)
         (fst (cli_answers env (map path_str (cli_selected entries)) (ext w) ! i))"
  by (simp add: test_cli_interface_run length_cli_answers)

lemma cli_result_names:
  "map (\<lambda>r. getitem r ''file_name'') (fst (test_cli_interface env (Some entries) w))
     = map (\<lambda>e. Some (PStr (ent_name e))) (cli_selected entries)"
proof (rule nth_equalityI)
  show "length (map (\<lambda>r. getitem r ''file_name'') (fst (test_cli_interface env (Some entries) w)))
      = length (map (\<lambda>e. Some (PStr (ent_name e))) (cli_selected entries))"
    by (simp add: test_cli_interface_run length_cli_answers)
next
  fix i
  assume "i < length (map (\<lambda>r. getitem r ''file_name'')
                        (fst (test_cli_interface env (Some entries) w)))"
  then have i: "i < length (cli_selected entries)"
    by (simp add: test_cli_interface_run length_cli_answers)
  then have len: "i < length (fst (test_cli_interface env (Some entries) w))"
    by (simp add: test_cli_interface_run length_cli_answers)
  have name: "getitem (cli_outcome e r) ''file_name'' = Some (PStr (ent_name e))" for e r
    by (cases r) (simp_all add: cli_outcome_def getitem_def)
  from i len show "map (\<lambda>r. getitem r ''file_name'')
                      (fst (test_cli_interface env (Some entries) w)) ! i
      = map (\<lambda>e. Some (PStr (ent_name e))) (cli_selected entries) ! i"
    by (simp add: cli_result_nth name)
qed

text \<open>
  What the exercise does on every listing: it runs on the first three directory
  entries whose lower-cased extension is \<open>.txt\<close>, \<open>.csv\<close> or \<open>.md\<close>, each invocation
  with the timeout 30; an invocation that times out is recorded with \<open>cli_successful\<close>
  false and the error \<open>Timeout\<close>; the outcome of a converter that ran and failed
  carries a \<open>return_code\<close>, which the timeout outcome lacks.
\<close>

lemma cli_exercise_general:
  "cli_selected entries =
     take 3 (filter (\<lambda>e. py_lower (ent_suffix e) \<in> {''.txt'', ''.csv'', ''.md''}) entries)
   \<and> length (cli_selected entries) \<le> 3
   \<and> cli_calls (snd (test_cli_interface env (Some entries) w))
       = cli_calls w @ map (\<lambda>e. (path_str e, 30)) (cli_selected entries)
   \<and> (\<forall>i < length (cli_selected entries).
         fst (cli_answers env (map path_str (cli_selected entries)) (ext w) ! i) = TimeoutExpired \<longrightarrow>
         fst (test_cli_interface env (Some entries) w) ! i
           = timeout_outcome (cli_selected entries ! i))
   \<and> (\<forall>e returncode stdout stderr.
         returncode \<noteq> 0 \<longrightarrow>
           cli_outcome e (Completed returncode stdout stderr) \<noteq> timeout_outcome e
         \<and> getitem (cli_outcome e (Completed returncode stdout stderr)) ''return_code''
             = Some (PInt returncode)
         \<and> getitem (timeout_outcome e) ''return_code'' = None)
   \<and> (\<forall>e message. (cli_outcome e (ProcRaised message) = timeout_outcome e) = (message = ''Timeout''))"
proof (intro conjI allI impI)
  show "cli_selected entries =
     take 3 (filter (\<lambda>e. py_lower (ent_suffix e) \<in> {''.txt'', ''.csv'', ''.md''}) entries)"
    unfolding cli_selected_def cli_suffix_ok_def by simp
  show "length (cli_selected entries) \<le> 3"
    by (simp add: cli_selected_def)
  show "cli_calls (snd (test_cli_interface env (Some entries) w))
       = cli_calls w @ map (\<lambda>e. (path_str e, 30)) (cli_selected entries)"
    by (simp add: test_cli_interface_run)
next
  fix i
  assume "i < length (cli_selected entries)"
    and "fst (cli_answers env (map path_str (cli_selected entries)) (ext w) ! i) = TimeoutExpired"
  then show "fst (test_cli_interface env (Some entries) w) ! i
           = timeout_outcome (cli_selected entries ! i)"
    by (simp add: cli_result_nth cli_outcome_def timeout_outcome_def)
next
  fix e returncode stdout stderr
  assume "returncode \<noteq> (0::int)"
  then show "cli_outcome e (Completed returncode stdout stderr) \<noteq> timeout_outcome e"
    by (simp add: cli_outcome_def timeout_outcome_def)
next
  fix e returncode stdout stderr
  assume "returncode \<noteq> (0::int)"
  then show "getitem (cli_outcome e (Completed returncode stdout stderr)) ''return_code''
             = Some (PInt returncode)"
    by (simp add: cli_outcome_def getitem_def)
next
  fix e
  show "getitem (timeout_outcome e) ''return_code'' = None"
    by (simp add: timeout_outcome_def getitem_def)
next
  fix e message
  show "(cli_outcome e (ProcRaised message) = timeout_outcome e) = (message = ''Timeout'')"
    by (simp add: cli_outcome_def timeout_outcome_def)
qed

text \<open>
  Claim C7. The exercise is to run on files whose extension is \<open>.txt\<close>, \<open>.csv\<close> or
  \<open>.md\<close>. The scan of the same directory asks \<open>is_file()\<close> of every entry; the loop
  that collects the entries for the command line does not. In a directory that lists a
  subdirectory \<open>dir.txt\<close>, a dangling link \<open>gone.md\<close>, a pipe \<open>pipe.csv\<close> and then the
  file \<open>real.txt\<close>, the scan finds the one file, while the three invocations of the
  command line go to the three entries that are not files and the file is never tried;
  the run ends normally with their three outcomes.
\<close>

theorem cli_exercise_takes_non_files:
  "map ent_name (filter is_file demo_mixed) = [''real.txt'']
   \<and> map (\<lambda>(category, docs). (category, map doc_name docs)) (get_test_documents (Some demo_mixed))
       = [(''other'', [''real.txt''])]
   \<and> cli_calls (snd (test_cli_interface demo_env (Some demo_mixed) demo_world))
       = [(''test-docs/dir.txt'', 30), (''test-docs/gone.md'', 30), (''test-docs/pipe.csv'', 30)]
   \<and> fin_exit (main demo_env (Some demo_mixed) NoFault demo_world None) = Completed_run
   \<and> map (\<lambda>r. getitem r ''file_name'')
         (fin_cli_results (main demo_env (Some demo_mixed) NoFault demo_world None))
       = [Some (PStr ''dir.txt''), Some (PStr ''gone.md''), Some (PStr ''pipe.csv'')]"
proof -
  have files: "filter is_file demo_mixed = [demo_entry ''real.txt'' ''.txt'' RegularFile]"
    by (simp add: demo_mixed_def demo_entry_def is_file_def)
  have sel: "cli_selected demo_mixed =
      [demo_entry ''dir.txt'' ''.txt'' Directory,
       demo_entry ''gone.md'' ''.md'' BrokenSymlink,
       demo_entry ''pipe.csv'' ''.csv'' SpecialFile]"
    by code_simp
  have scan: "map (\<lambda>(category, docs). (category, map doc_name docs))
                (get_test_documents (Some demo_mixed)) = [(''other'', [''real.txt''])]"
    by code_simp
  have names: "map ent_name (filter is_file demo_mixed) = [''real.txt'']"
    unfolding files by (simp add: demo_entry_def)
  have calls: "cli_calls (snd (test_cli_interface demo_env (Some demo_mixed) demo_world))
       = [(''test-docs/dir.txt'', 30), (''test-docs/gone.md'', 30), (''test-docs/pipe.csv'', 30)]"
    unfolding test_cli_interface_run sel
    by (simp add: demo_world_def path_str_def demo_entry_def)
  have imp: "docling_importable demo_env"
    by (simp add: demo_env_def)
  have ne: "filter is_file demo_mixed \<noteq> []"
    unfolding files by simp
  from main_run [OF imp ne, of demo_world]
  obtain ar cli_results rep w1 w2 data where
      cli: "test_cli_interface demo_env (Some demo_mixed) w1 = (cli_results, w2)"
    and fin: "\<forall>fault old. main demo_env (Some demo_mixed) fault demo_world old =
          \<lparr> fin_exit = (case fst (write_report_file fault (json_dumps data) old) of
                          Inl e \<Rightarrow> Uncaught e | Inr u \<Rightarrow> Completed_run),
            fin_all_results = ar, fin_cli_results = cli_results, fin_report = Some rep,
            fin_world = w2,
            fin_file = snd (write_report_file fault (json_dumps data) old) \<rparr>"
    by blast
  from fin have ends: "fin_exit (main demo_env (Some demo_mixed) NoFault demo_world None) = Completed_run"
    by (simp add: write_report_file_def)
  from fin have "fin_cli_results (main demo_env (Some demo_mixed) NoFault demo_world None) = cli_results"
    by simp
  also from cli have "cli_results = fst (test_cli_interface demo_env (Some demo_mixed) w1)"
    by simp
  finally have "map (\<lambda>r. getitem r ''file_name'')
         (fin_cli_results (main demo_env (Some demo_mixed) NoFault demo_world None))
       = map (\<lambda>e. Some (PStr (ent_name e))) (cli_selected demo_mixed)"
    by (simp only: cli_result_names)
  then have outcomes: "map (\<lambda>r. getitem r ''file_name'')
         (fin_cli_results (main demo_env (Some demo_mixed) NoFault demo_world None))
       = [Some (PStr ''dir.txt''), Some (PStr ''gone.md''), Some (PStr ''pipe.csv'')]"
    unfolding sel by (simp add: demo_entry_def)
  from names scan calls ends outcomes show ?thesis by (intro conjI)
qed



section \<open>Writing the report file\<close>

lemma json_dumps_report_data:
  "report_data env ar cli_results timestamp = Inr data \<Longrightarrow>
     \<exists>rest. json_dumps data = CHR ''{'' # CHR 0x0A # rest"
  by (auto simp: report_data_def json_dumps_def newline_indent_def split: sum.splits)

text \<open>
  Claim C9, as stated, fails: the write is not all-or-nothing. In a run over one file
  whose report file already holds an earlier report, a write that fails at once leaves
  the file empty, and one that fails after one character leaves it holding only the
  opening brace: neither the earlier report nor the complete new one.
\<close>

theorem report_write_is_partial_counterexample:
  "fin_file (main demo_env (Some [demo_entry ''data.csv'' ''.csv'' RegularFile])
               (WriteFailsAfter 0) demo_world (Some ''old report'')) = Some []
   \<and> fin_file (main demo_env (Some [demo_entry ''data.csv'' ''.csv'' RegularFile])
               (WriteFailsAfter 1) demo_world (Some ''old report'')) = Some ''{''
   \<and> fin_exit (main demo_env (Some [demo_entry ''data.csv'' ''.csv'' RegularFile])
               (WriteFailsAfter 0) demo_world (Some ''old report'')) = Uncaught OSError
   \<and> fin_exit (main demo_env (Some [demo_entry ''data.csv'' ''.csv'' RegularFile])
               (WriteFailsAfter 1) demo_world (Some ''old report'')) = Uncaught OSError
   \<and> fin_file (main demo_env (Some [demo_entry ''data.csv'' ''.csv'' RegularFile])
               NoFault demo_world (Some ''old report'')) \<noteq> Some []
   \<and> fin_file (main demo_env (Some [demo_entry ''data.csv'' ''.csv'' RegularFile])
               NoFault demo_world (Some ''old report'')) \<noteq> Some ''{''"
proof -
  let ?es = "[demo_entry ''data.csv'' ''.csv'' RegularFile]"
  have imp: "docling_importable demo_env"
    by (simp add: demo_env_def)
  have ne: "filter is_file ?es \<noteq> []"
    by (simp add: demo_entry_def is_file_def)
  from main_run [OF imp ne, of demo_world]
  obtain ar cli_results rep w2 data where
      data: "report_data demo_env ar cli_results (now_isoformat demo_env (ext w2)) = Inr data"
    and fin: "\<forall>fault old. main demo_env (Some ?es) fault demo_world old =
          \<lparr> fin_exit = (case fst (write_report_file fault (json_dumps data) old) of
                          Inl e \<Rightarrow> Uncaught e | Inr u \<Rightarrow> Completed_run),
            fin_all_results = ar, fin_cli_results = cli_results, fin_report = Some rep,
            fin_world = w2,
            fin_file = snd (write_report_file fault (json_dumps data) old) \<rparr>"
    by blast
  from json_dumps_report_data [OF data]
  obtain rest where js: "json_dumps data = CHR ''{'' # CHR 0x0A # rest" by blast
  show ?thesis
    by (simp add: fin write_report_file_def js)
qed

text \<open>
  Claim C9, amended. The report is written in place: the file is opened for writing,
  which discards an earlier report, and the text is written into it, with no temporary
  file and no handler around the write. If the file cannot be opened, it is left as it
  was; if a write fails after \<open>n\<close> characters, the file holds the first \<open>n\<close> characters
  of the report. In both cases the error leaves \<open>save_results\<close> and \<open>main\<close> uncaught,
  which is how the operator learns of it. The conversion outcomes, the command-line
  outcomes and the printed report were computed before the write and are the same
  whether or not it fails.
\<close>

theorem report_write_in_place:
  assumes "docling_importable env" and "filter is_file entries \<noteq> []"
  shows "\<exists>content.
      content \<noteq> []
    \<and> fin_exit (main env (Some entries) NoFault w file) = Completed_run
    \<and> fin_file (main env (Some entries) NoFault w file) = Some content
    \<and> fin_exit (main env (Some entries) OpenFails w file) = Uncaught OSError
    \<and> fin_file (main env (Some entries) OpenFails w file) = file
    \<and> (\<forall>n < length content.
          fin_exit (main env (Some entries) (WriteFailsAfter n) w file) = Uncaught OSError
        \<and> fin_file (main env (Some entries) (WriteFailsAfter n) w file) = Some (take n content))
    \<and> (\<forall>fault.
          fin_all_results (main env (Some entries) fault w file)
            = fin_all_results (main env (Some entries) NoFault w file)
        \<and> fin_cli_results (main env (Some entries) fault w file)
            = fin_cli_results (main env (Some entries) NoFault w file)
        \<and> fin_report (main env (Some entries) fault w file)
            = fin_report (main env (Some entries) NoFault w file)
        \<and> fin_world (main env (Some entries) fault w file)
            = fin_world (main env (Some entries) NoFault w file))"
proof -
  from main_run [OF assms, of w]
  obtain ar cli_results rep w2 data where
      data: "report_data env ar cli_results (now_isoformat env (ext w2)) = Inr data"
    and fin: "\<forall>fault old. main env (Some entries) fault w old =
          \<lparr> fin_exit = (case fst (write_report_file fault (json_dumps data) old) of
                          Inl e \<Rightarrow> Uncaught e | Inr u \<Rightarrow> Completed_run),
            fin_all_results = ar, fin_cli_results = cli_results, fin_report = Some rep,
            fin_world = w2,
            fin_file = snd (write_report_file fault (json_dumps data) old) \<rparr>"
    by blast
  from json_dumps_report_data [OF data]
  have "json_dumps data \<noteq> []" by auto
  then show ?thesis
    by (intro exI [of _ "json_dumps data"]) (simp add: fin write_report_file_def)
qed

theorem report_write_in_place_witness:
  "docling_importable demo_env
   \<and> filter is_file [demo_entry ''data.csv'' ''.csv'' RegularFile] \<noteq> []
   \<and> fin_exit (main demo_env (Some [demo_entry ''data.csv'' ''.csv'' RegularFile])
        (WriteFailsAfter 0) demo_world (Some ''old report'')) = Uncaught OSError
   \<and> fin_file (main demo_env (Some [demo_entry ''data.csv'' ''.csv'' RegularFile])
        (WriteFailsAfter 0) demo_world (Some ''old report'')) = Some []
   \<and> fin_file (main demo_env (Some [demo_entry ''data.csv'' ''.csv'' RegularFile])
        OpenFails demo_world (Some ''old report'')) = Some ''old report''"
proof -
  let ?es = "[demo_entry ''data.csv'' ''.csv'' RegularFile]"
  have imp: "docling_importable demo_env"
    by (simp add: demo_env_def)
  have ne: "filter is_file ?es \<noteq> []"
    by (simp add: demo_entry_def is_file_def)
  from report_write_in_place [OF imp ne, of demo_world "Some ''old report''"]
  obtain content where "content \<noteq> []"
    and "fin_file (main demo_env (Some ?es) OpenFails demo_world (Some ''old report''))
           = Some ''old report''"
    and "\<forall>n < length content.
          fin_exit (main demo_env (Some ?es) (WriteFailsAfter n) demo_world (Some ''old report''))
            = Uncaught OSError
        \<and> fin_file (main demo_env (Some ?es) (WriteFailsAfter n) demo_world (Some ''old report''))
            = Some (take n content)"
    by blast
  then have "fin_exit (main demo_env (Some ?es) (WriteFailsAfter 0) demo_world (Some ''old report''))
            = Uncaught OSError
        \<and> fin_file (main demo_env (Some ?es) (WriteFailsAfter 0) demo_world (Some ''old report''))
            = Some []"
    and "fin_file (main demo_env (Some ?es) OpenFails demo_world (Some ''old report''))
           = Some ''old report''"
    by force+
  with imp ne show ?thesis by blast
qed

section \<open>Rounding to a double\<close>

lemma bitlen_0: "bitlen 0 = 0"
  by (simp add: bitlen.simps)

lemma bitlen_upper: "p < 2 ^ bitlen p"
proof (induction p rule: bitlen.induct)
  case (1 n)
  show ?case
  proof (cases "n = 0")
    case True
    then show ?thesis by (simp add: bitlen.simps)
  next
    case False
    with 1 have "n div 2 < 2 ^ bitlen (n div 2)" by simp
    then have "n < 2 * 2 ^ bitlen (n div 2)" by linarith
    with False show ?thesis by (simp add: bitlen.simps [of n])
  qed
qed

lemma bitlen_lower: "p \<noteq> 0 \<Longrightarrow> 2 ^ bitlen p \<le> 2 * p"
proof (induction p rule: bitlen.induct)
  case (1 n)
  show ?case
  proof (cases "n div 2 = 0")
    case True
    with "1.prems" have "n = 1" by linarith
    then show ?thesis by (simp add: bitlen.simps [of "Suc 0"] bitlen_0)
  next
    case False
    with 1 have "2 ^ bitlen (n div 2) \<le> 2 * (n div 2)" by simp
    then have "2 * 2 ^ bitlen (n div 2) \<le> 2 * n" by linarith
    with "1.prems" show ?thesis by (simp add: bitlen.simps [of n])
  qed
qed

lemma bitlen_le: "p < 2 ^ k \<Longrightarrow> bitlen p \<le> k"
proof (rule ccontr)
  assume small: "p < 2 ^ k" and "\<not> bitlen p \<le> k"
  then have "Suc k \<le> bitlen p" by simp
  then have "(2::nat) ^ Suc k \<le> 2 ^ bitlen p" by (rule power_increasing) simp
  moreover from \<open>Suc k \<le> bitlen p\<close> have "p \<noteq> 0" by (cases "p = 0") (simp_all add: bitlen_0)
  ultimately have "(2::nat) ^ Suc k \<le> 2 * p" using bitlen_lower [of p] by linarith
  with small show False by simp
qed

lemma bitlen_eq:
  assumes "2 ^ k \<le> 2 * p" and "p < 2 ^ k"
  shows "bitlen p = k"
proof (rule antisym)
  show "bitlen p \<le> k" using assms(2) by (rule bitlen_le)
next
  show "k \<le> bitlen p"
  proof (rule ccontr)
    assume "\<not> k \<le> bitlen p"
    then have "Suc (bitlen p) \<le> k" by simp
    then have "(2::nat) ^ Suc (bitlen p) \<le> 2 ^ k" by (rule power_increasing) simp
    with assms(1) have "2 ^ bitlen p \<le> p" by simp
    with bitlen_upper [of p] show False by simp
  qed
qed

lemma round53_small: "p < 2 ^ 53 \<Longrightarrow> round53 p = p"
  using bitlen_le [of p 53] by (simp add: round53_def)

lemma round53_lower: "2 ^ 52 * p \<le> 2 ^ 52 * round53 p + p"
proof (cases "bitlen p \<le> 53")
  case True
  then show ?thesis by (simp add: round53_def)
next
  case False
  define sh where "sh = bitlen p - 53"
  define X :: nat where "X = 2 ^ sh"
  define q where "q = p div X"
  define r where "r = p mod X"
  from False have len: "bitlen p = sh + 53" by (simp add: sh_def)
  from False have "p \<noteq> 0" by (cases "p = 0") (simp_all add: bitlen_0)
  then have "2 ^ (sh + 53) \<le> 2 * p" using bitlen_lower [of p] by (simp add: len)
  then have big: "2 ^ 52 * X \<le> p" by (simp add: X_def power_add)
  have split: "p = q * X + r" by (simp add: q_def r_def)
  have "0 < X" by (simp add: X_def)
  then have small: "r < X" by (simp add: r_def)
  have "q * X \<le> round53 p"
    using False by (simp add: round53_def Let_def sh_def [symmetric] X_def [symmetric] q_def [symmetric])
  then have "2 ^ 52 * (q * X) \<le> 2 ^ 52 * round53 p" by simp
  moreover have "2 ^ 52 * r \<le> p" using small big by simp
  moreover have "2 ^ 52 * p = 2 ^ 52 * (q * X) + 2 ^ 52 * r"
    by (subst split) (simp add: algebra_simps)
  ultimately show ?thesis by linarith
qed

lemma round53_upper:
  assumes "p \<le> n" and "2 ^ (bitlen p - 53) dvd n"
  shows "round53 p \<le> n"
proof (cases "bitlen p \<le> 53")
  case True
  with assms show ?thesis by (simp add: round53_def)
next
  case False
  define sh where "sh = bitlen p - 53"
  define X :: nat where "X = 2 ^ sh"
  define q where "q = p div X"
  define r where "r = p mod X"
  have "0 < X" by (simp add: X_def)
  from assms(2) obtain m where n: "n = X * m" by (auto simp: sh_def X_def dvd_def)
  have split: "p = q * X + r" by (simp add: q_def r_def)
  have rounded: "round53 p = (if 2 ^ (sh - 1) < r \<or> (r = 2 ^ (sh - 1) \<and> odd q) then q + 1 else q) * X"
    using False by (simp add: round53_def Let_def sh_def [symmetric] X_def [symmetric]
        q_def [symmetric] r_def [symmetric])
  show ?thesis
  proof (cases "r = 0")
    case True
    then have "round53 p = q * X" by (simp add: rounded)
    with split True assms(1) show ?thesis by simp
  next
    case False
    with split have "q * X < p" by simp
    with assms(1) have "q * X < n" by linarith
    then have "X * q < X * m" unfolding n by (simp only: mult.commute)
    then have "q < m" by simp
    then have "(q + 1) * X \<le> m * X" by (intro mult_le_mono1) simp
    moreover have "round53 p \<le> (q + 1) * X" by (simp add: rounded)
    ultimately show ?thesis by (simp add: n mult.commute)
  qed
qed

lemma meets_threshold_iff:
  assumes "t < 2 ^ 48"
  shows "meets_threshold s t \<longleftrightarrow> 7 * t \<le> 10 * s"
proof -
  define p where "p = t * 6305039478318694"
  from assms have "t < 2 ^ 53" by simp
  then have t: "round53 t = t" by (rule round53_small)
  have unfold: "meets_threshold s t \<longleftrightarrow> round53 p \<le> s * 2 ^ 53"
    by (simp add: meets_threshold_def float_of_nat_def const_0_7_def t p_def)
  show ?thesis
  proof
    assume "7 * t \<le> 10 * s"
    then have le: "p \<le> s * 2 ^ 53" by (simp add: p_def)
    from assms have "p < 2 ^ 106" by (simp add: p_def)
    then have "bitlen p \<le> 106" by (rule bitlen_le)
    then have "bitlen p - 53 \<le> 53" by simp
    then have "(2::nat) ^ (bitlen p - 53) dvd 2 ^ 53" by (rule le_imp_power_dvd)
    then have "2 ^ (bitlen p - 53) dvd s * 2 ^ 53" by (rule dvd_mult)
    with le have "round53 p \<le> s * 2 ^ 53" by (rule round53_upper)
    then show "meets_threshold s t" by (simp add: unfold)
  next
    assume "meets_threshold s t"
    then have up: "round53 p \<le> s * 2 ^ 53" by (simp add: unfold)
    show "7 * t \<le> 10 * s"
    proof (rule ccontr)
      assume "\<not> 7 * t \<le> 10 * s"
      then have "10 * s + 1 \<le> 7 * t" by simp
      moreover have "2 ^ 52 * p \<le> 2 ^ 52 * round53 p + p" by (rule round53_lower)
      moreover note up assms
      ultimately show False by (simp add: p_def)
    qed
  qed
qed

lemma round53_above: "2 ^ 52 * round53 p \<le> 2 ^ 52 * p + p"
proof (cases "bitlen p \<le> 53")
  case True
  then show ?thesis by (simp add: round53_def)
next
  case False
  define sh where "sh = bitlen p - 53"
  define X :: nat where "X = 2 ^ sh"
  define q where "q = p div X"
  define r where "r = p mod X"
  from False have len: "bitlen p = sh + 53" by (simp add: sh_def)
  from False have "p \<noteq> 0" by (cases "p = 0") (simp_all add: bitlen_0)
  then have "2 ^ (sh + 53) \<le> 2 * p" using bitlen_lower [of p] by (simp add: len)
  then have big: "2 ^ 52 * X \<le> p" by (simp add: X_def power_add)
  have split: "p = q * X + r" by (simp add: q_def r_def)
  have "round53 p \<le> (q + 1) * X"
    using False by (simp add: round53_def Let_def sh_def [symmetric] X_def [symmetric] q_def [symmetric])
  then have "2 ^ 52 * round53 p \<le> 2 ^ 52 * ((q + 1) * X)" by simp
  then have "2 ^ 52 * round53 p \<le> 2 ^ 52 * (q * X) + 2 ^ 52 * X" by (simp add: algebra_simps)
  moreover have "2 ^ 52 * p = 2 ^ 52 * (q * X) + 2 ^ 52 * r"
    by (subst split) (simp add: algebra_simps)
  ultimately show ?thesis using big by linarith
qed

lemma bitlen_mono: "a \<le> b \<Longrightarrow> bitlen a \<le> bitlen b"
proof -
  assume "a \<le> b"
  with bitlen_upper [of b] have "a < 2 ^ bitlen b" by simp
  then show ?thesis by (rule bitlen_le)
qed

lemma format_1f_near:
  "2 * (format_1f (Dyadic m k) * 2 ^ k) \<le> 2 * (10 * m) + 2 ^ k
   \<and> 2 * (10 * m) \<le> 2 * (format_1f (Dyadic m k) * 2 ^ k) + 2 ^ k"
proof -
  define Z :: nat where "Z = 2 ^ k"
  define q where "q = (10 * m) div Z"
  define r where "r = (10 * m) mod Z"
  define d where "d = format_1f (Dyadic m k)"
  have "0 < Z" by (simp add: Z_def)
  then have small: "r < Z" by (simp add: r_def)
  have split: "q * Z + r = 10 * m" by (simp add: q_def r_def)
  have d: "d = (if Z < 2 * r \<or> (2 * r = Z \<and> odd q) then q + 1 else q)"
    by (simp add: d_def Let_def Z_def q_def r_def)
  have "2 * (d * Z) \<le> 2 * (q * Z + r) + Z \<and> 2 * (q * Z + r) \<le> 2 * (d * Z) + Z"
  proof (cases "Z < 2 * r \<or> (2 * r = Z \<and> odd q)")
    case True
    then have "d = q + 1" by (simp add: d)
    moreover from True have "Z \<le> 2 * r" by auto
    ultimately show ?thesis using small by (simp add: algebra_simps)
  next
    case False
    then have "d = q" by (simp add: d)
    moreover from False have "2 * r \<le> Z" by auto
    ultimately show ?thesis by (simp add: algebra_simps)
  qed
  then have "2 * (d * Z) \<le> 2 * (10 * m) + Z \<and> 2 * (10 * m) \<le> 2 * (d * Z) + Z"
    by (simp only: split)
  then show ?thesis by (simp only: d_def Z_def)
qed

lemma percent_rounds:
  assumes pos: "0 < b" and le: "a \<le> b" and small: "b < 2 ^ 32"
  shows "\<exists>x. percent a b = Inr x
      \<and> 2 * format_1f x * b \<le> 2000 * a + b
      \<and> 2000 * a \<le> 2 * format_1f x * b + b"
proof -
  define k where "k = 54 + bitlen b - bitlen a"
  define P :: nat where "P = 2 ^ k"
  define q where "q = (a * P) div b"
  define rem where "rem = (a * P) mod b"
  define y where "y = 2 * q + (if rem = 0 then 0 else 1)"
  define m1 where "m1 = round53 y"
  define m2 where "m2 = round53 (m1 * 100)"
  define d where "d = format_1f (Dyadic m2 (k + 1))"
  have hundred: "round53 100 = 100" by (rule round53_small) simp
  have run: "percent a b = Inr (Dyadic m2 (k + 1))"
    using pos
    by (simp add: percent_def truediv_def Let_def float_of_nat_def hundred
        k_def [symmetric] P_def [symmetric] q_def [symmetric] rem_def [symmetric]
        y_def [symmetric] m1_def [symmetric] m2_def [symmetric])
  from le have "bitlen a \<le> bitlen b" by (rule bitlen_mono)
  then have "54 \<le> k" by (simp add: k_def)
  then have "(2::nat) ^ 54 \<le> 2 ^ k" by (rule power_increasing) simp
  then have P: "2 ^ 54 \<le> P" by (simp add: P_def)
  define A where "A = a * P"
  define Y where "Y = y * b"
  define M1 where "M1 = m1 * b"
  define M2 where "M2 = m2 * b"
  define D where "D = d * b * P"
  define Pb where "Pb = P * b"
  have split: "A = q * b + rem" by (simp add: A_def q_def rem_def)
  have "rem < b" using pos by (simp add: rem_def)
  then have Y: "Y \<le> 2 * A + b \<and> 2 * A \<le> Y + b"
    by (cases "rem = 0") (simp_all add: Y_def y_def split algebra_simps)
  have "2 ^ 52 * y \<le> 2 ^ 52 * m1 + y"
    unfolding m1_def by (rule round53_lower)
  then have "(2 ^ 52 * y) * b \<le> (2 ^ 52 * m1 + y) * b" by (rule mult_le_mono1)
  then have M1a: "4503599627370496 * Y \<le> 4503599627370496 * M1 + Y"
    by (simp add: Y_def M1_def algebra_simps)
  have "2 ^ 52 * m1 \<le> 2 ^ 52 * y + y"
    unfolding m1_def by (rule round53_above)
  then have "(2 ^ 52 * m1) * b \<le> (2 ^ 52 * y + y) * b" by (rule mult_le_mono1)
  then have M1b: "4503599627370496 * M1 \<le> 4503599627370496 * Y + Y"
    by (simp add: Y_def M1_def algebra_simps)
  have "2 ^ 52 * (m1 * 100) \<le> 2 ^ 52 * m2 + m1 * 100"
    unfolding m2_def by (rule round53_lower)
  then have "(2 ^ 52 * (m1 * 100)) * b \<le> (2 ^ 52 * m2 + m1 * 100) * b" by (rule mult_le_mono1)
  then have M2a: "450359962737049600 * M1 \<le> 4503599627370496 * M2 + 100 * M1"
    by (simp add: M1_def M2_def algebra_simps)
  have "2 ^ 52 * m2 \<le> 2 ^ 52 * (m1 * 100) + m1 * 100"
    unfolding m2_def by (rule round53_above)
  then have "(2 ^ 52 * m2) * b \<le> (2 ^ 52 * (m1 * 100) + m1 * 100) * b" by (rule mult_le_mono1)
  then have M2b: "4503599627370496 * M2 \<le> 450359962737049600 * M1 + 100 * M1"
    by (simp add: M1_def M2_def algebra_simps)
  from format_1f_near [of m2 "k + 1"]
  have near: "2 * (d * (2 * P)) \<le> 2 * (10 * m2) + 2 * P"
      "2 * (10 * m2) \<le> 2 * (d * (2 * P)) + 2 * P"
    by (simp_all add: d_def P_def)
  from near(1) have "(2 * (d * (2 * P))) * b \<le> (2 * (10 * m2) + 2 * P) * b"
    by (rule mult_le_mono1)
  then have Da: "2 * D \<le> 10 * M2 + Pb"
    by (simp add: D_def M2_def Pb_def algebra_simps)
  from near(2) have "(2 * (10 * m2)) * b \<le> (2 * (d * (2 * P)) + 2 * P) * b"
    by (rule mult_le_mono1)
  then have Db: "10 * M2 \<le> 2 * D + Pb"
    by (simp add: D_def M2_def Pb_def algebra_simps)
  from P have P54: "18014398509481984 \<le> P" by simp
  from small have b32: "b < 4294967296" by simp
  from le small have "a < 2 ^ 32" by simp
  then have "a * P \<le> 2 ^ 32 * P" by (intro mult_le_mono1) simp
  then have A: "A \<le> 4294967296 * P" by (simp add: A_def)
  have upper: "2 * d * b \<le> 2000 * a + b"
  proof (rule ccontr)
    assume "\<not> 2 * d * b \<le> 2000 * a + b"
    then have "2000 * a + b + 1 \<le> 2 * d * b" by simp
    then have "(2000 * a + b + 1) * P \<le> (2 * d * b) * P" by (rule mult_le_mono1)
    then have "2000 * A + Pb + P \<le> 2 * D"
      by (simp add: A_def Pb_def D_def algebra_simps)
    with Y M1b M2b Da A P54 b32 show False by linarith
  qed
  have lower: "2000 * a \<le> 2 * d * b + b"
  proof (rule ccontr)
    assume "\<not> 2000 * a \<le> 2 * d * b + b"
    then have "2 * d * b + b + 1 \<le> 2000 * a" by simp
    then have "(2 * d * b + b + 1) * P \<le> (2000 * a) * P" by (rule mult_le_mono1)
    then have "2 * D + Pb + P \<le> 2000 * A"
      by (simp add: A_def Pb_def D_def algebra_simps)
    with Y M1a M2a Db A P54 b32 show False by linarith
  qed
  from run upper lower show ?thesis by (simp add: d_def)
qed

lemma percent_2_3: "percent 2 3 = Inr (Dyadic 2401919801264264192 55)"
proof -
  have b2: "bitlen 2 = 2" by (rule bitlen_eq) simp_all
  have b3: "bitlen 3 = 2" by (rule bitlen_eq) simp_all
  have b100: "bitlen 100 = 7" by (rule bitlen_eq) simp_all
  have bq: "bitlen 24019198012642645 = 55" by (rule bitlen_eq) simp_all
  have bp: "bitlen 2401919801264264400 = 62" by (rule bitlen_eq) simp_all
  have quotient: "truediv 2 3 = Inr (Dyadic 24019198012642644 55)"
    by (simp add: truediv_def Let_def b2 b3 round53_def bq)
  have hundred: "float_of_nat 100 = Dyadic 100 0"
    by (simp add: float_of_nat_def round53_def b100)
  show ?thesis
    by (simp add: percent_def quotient hundred round53_def bp Let_def)
qed

section \<open>Success rates\<close>

lemma category_rate_rounds:
  assumes "a \<le> b" and "b < 2 ^ 32"
  shows "(b = 0 \<longrightarrow> category_rate a b = Inr (NInt 0))
       \<and> (0 < b \<longrightarrow> (\<exists>x. category_rate a b = Inr (NFloat x)
                          \<and> rounds_to_tenths a b (format_1f x)))"
proof (cases "b = 0")
  case True
  then show ?thesis by (simp add: category_rate_def)
next
  case False
  then have pos: "0 < b" by simp
  from percent_rounds [OF pos assms]
  obtain x where "percent a b = Inr x"
    and "2 * format_1f x * b \<le> 2000 * a + b" and "2000 * a \<le> 2 * format_1f x * b + b"
    by blast
  with pos show ?thesis by (simp add: category_rate_def rounds_to_tenths_def)
qed

lemma category_breakdown_rate:
  "wf_results ar \<Longrightarrow> category_breakdown ar = Inr lines \<Longrightarrow> i < length ar \<Longrightarrow>
     category_rate (successes (snd (ar ! i))) (length (snd (ar ! i))) = Inr (cat_rate (lines ! i))"
proof (induction ar arbitrary: lines i)
  case Nil
  then show ?case by simp
next
  case (Cons p ar)
  obtain c rs where p: "p = (c, rs)" by (cases p)
  from Cons.prems(1) have wf: "\<forall>r \<in> set rs. wf_outcome r" and wf_rest: "wf_results ar"
    by (simp_all add: p wf_results_Cons)
  from Cons.prems(2) obtain rate failed rest where
      rate: "category_rate (successes rs) (length rs) = Inr rate"
    and rest: "category_breakdown ar = Inr rest"
    and lines: "lines = \<lparr> cat_name = c, cat_successful = successes rs,
                          cat_total = length rs, cat_rate = rate, cat_failed = failed \<rparr> # rest"
    by (auto simp: p count_if_wf [OF wf] split: sum.splits)
  show ?case
  proof (cases i)
    case 0
    then show ?thesis by (simp add: p lines rate)
  next
    case (Suc j)
    with Cons.prems(3) have "j < length ar" by simp
    from Cons.IH [OF wf_rest rest this] Suc show ?thesis by (simp add: lines)
  qed
qed

lemma generate_kmrl_report_breakdown:
  assumes "generate_kmrl_report ar cli_results = Inr rep"
  shows "category_breakdown ar = Inr (rep_breakdown rep)"
proof -
  from assms obtain ts where ts: "sum_counts ''conversion_successful'' ar = Inr ts"
    by (cases "sum_counts ''conversion_successful'' ar")
       (simp_all add: generate_kmrl_report_def Let_def)
  from assms ts obtain overall where ov: "percent ts (total_documents_of ar) = Inr overall"
    by (cases "percent ts (total_documents_of ar)")
       (simp_all add: generate_kmrl_report_def Let_def)
  from assms ts ov obtain lines where lines: "category_breakdown ar = Inr lines"
    by (cases "category_breakdown ar")
       (simp_all add: generate_kmrl_report_def Let_def)
  from assms have "rep_breakdown rep = lines"
    unfolding generate_kmrl_report_def Let_def ts ov lines
    by (auto split: sum.splits prod.splits)
  with lines show ?thesis by simp
qed

lemma category_length_le_total:
  "i < length ar \<Longrightarrow> length (snd (ar ! i)) \<le> total_documents_of ar"
proof -
  let ?f = "\<lambda>(category, results). length results :: nat"
  assume i: "i < length ar"
  then have "map ?f ar ! i \<in> set (map ?f ar)" by (intro nth_mem) simp
  then have "map ?f ar ! i \<le> sum_list (map ?f ar)" by (rule member_le_sum_list) simp_all
  with i show ?thesis by (simp add: total_documents_of_def case_prod_unfold)
qed

lemma main_no_zero_division:
  "fin_exit (main env listing fault w file) \<noteq> Uncaught ZeroDivisionError"
proof (cases "docling_importable env")
  case False
  then show ?thesis by (simp add: main_def)
next
  case True
  show ?thesis
  proof (cases listing)
    case None
    then show ?thesis by (simp add: main_def get_test_documents_def)
  next
    case (Some entries)
    show ?thesis
    proof (cases "filter is_file entries = []")
      case True
      then have "get_test_documents (Some entries) = []" by (simp add: documents_empty_iff)
      then show ?thesis by (simp add: main_def Some)
    next
      case False
      from main_run [OF \<open>docling_importable env\<close> False, of w]
      obtain ar cli_results rep w2 data where
        fin: "\<forall>fault old. main env (Some entries) fault w old =
          \<lparr> fin_exit = (case fst (write_report_file fault (json_dumps data) old) of
                          Inl e \<Rightarrow> Uncaught e | Inr u \<Rightarrow> Completed_run),
            fin_all_results = ar, fin_cli_results = cli_results, fin_report = Some rep,
            fin_world = w2,
            fin_file = snd (write_report_file fault (json_dumps data) old) \<rparr>"
        by blast
      show ?thesis
        by (cases fault) (simp_all add: Some fin write_report_file_def)
    qed
  qed
qed

lemma unguarded_rates_raise:
  "test_category env category [] w = (Inl ZeroDivisionError, w)
   \<and> generate_kmrl_report [(category, [])] cli_results = Inl ZeroDivisionError"
  by (simp add: test_category_def generate_kmrl_report_def total_documents_of_def percent_zero)

text \<open>
  Claim C5. In the report the line of every category shows the rate
  \<open>successful / total * 100\<close> to one decimal: the number of tenths shown is within half
  a tenth of the exact quotient, so two successes out of three show 66.7; a category
  without outcomes shows the rate 0 and raises nothing. This holds for the report over
  any results that have the keys the conversion writes and hold at least one and fewer
  than \<open>2 ^ 32\<close> outcomes. The two divisions without a guard, in the summary of
  \<open>test_category\<close> and in the overall rate of the report, are reached by a run only with
  a count that is not zero: no run ends with a division by zero, whatever the
  directory lists, the converter and the command line answer and the file system does.
\<close>

theorem success_rates:
  assumes wf: "wf_results all_results"
    and cli: "\<forall>r \<in> set cli_results. has_key ''cli_successful'' r"
    and pos: "0 < total_documents_of all_results"
    and small: "total_documents_of all_results < 2 ^ 32"
  shows "\<exists>rep. generate_kmrl_report all_results cli_results = Inr rep
      \<and> length (rep_breakdown rep) = length all_results
      \<and> (\<forall>i < length all_results.
            cat_name (rep_breakdown rep ! i) = fst (all_results ! i)
          \<and> cat_successful (rep_breakdown rep ! i) = successes (snd (all_results ! i))
          \<and> cat_total (rep_breakdown rep ! i) = length (snd (all_results ! i))
          \<and> (snd (all_results ! i) = [] \<longrightarrow> cat_rate (rep_breakdown rep ! i) = NInt 0
                \<and> format_num_1f (cat_rate (rep_breakdown rep ! i)) = 0)
          \<and> (snd (all_results ! i) \<noteq> [] \<longrightarrow>
                rounds_to_tenths (successes (snd (all_results ! i))) (length (snd (all_results ! i)))
                  (format_num_1f (cat_rate (rep_breakdown rep ! i))))
          \<and> (successes (snd (all_results ! i)) = 2 \<and> length (snd (all_results ! i)) = 3 \<longrightarrow>
                format_num_1f (cat_rate (rep_breakdown rep ! i)) = 667))
      \<and> fin_exit (main env listing fault w file) \<noteq> Uncaught ZeroDivisionError"
proof -
  from generate_kmrl_report_wf [OF wf cli pos]
  obtain rep where rep: "generate_kmrl_report all_results cli_results = Inr rep"
    and names: "map cat_name (rep_breakdown rep) = map fst all_results"
    and totals: "map cat_total (rep_breakdown rep) = map (\<lambda>(c, rs). length rs) all_results"
    and succs: "map cat_successful (rep_breakdown rep) = map (\<lambda>(c, rs). successes rs) all_results"
    by blast
  from names have len: "length (rep_breakdown rep) = length all_results"
    by (rule map_eq_imp_length_eq)
  have lines: "category_breakdown all_results = Inr (rep_breakdown rep)"
    using rep by (rule generate_kmrl_report_breakdown)
  have each: "cat_name (rep_breakdown rep ! i) = fst (all_results ! i)
          \<and> cat_successful (rep_breakdown rep ! i) = successes (snd (all_results ! i))
          \<and> cat_total (rep_breakdown rep ! i) = length (snd (all_results ! i))
          \<and> (snd (all_results ! i) = [] \<longrightarrow> cat_rate (rep_breakdown rep ! i) = NInt 0
                \<and> format_num_1f (cat_rate (rep_breakdown rep ! i)) = 0)
          \<and> (snd (all_results ! i) \<noteq> [] \<longrightarrow>
                rounds_to_tenths (successes (snd (all_results ! i))) (length (snd (all_results ! i)))
                  (format_num_1f (cat_rate (rep_breakdown rep ! i))))
          \<and> (successes (snd (all_results ! i)) = 2 \<and> length (snd (all_results ! i)) = 3 \<longrightarrow>
                format_num_1f (cat_rate (rep_breakdown rep ! i)) = 667)"
    if i: "i < length all_results" for i
  proof -
    let ?rs = "snd (all_results ! i)"
    let ?line = "rep_breakdown rep ! i"
    from i len have i': "i < length (rep_breakdown rep)" by simp
    have n: "cat_name ?line = fst (all_results ! i)"
      using arg_cong [OF names, of "\<lambda>xs. xs ! i"] i i' by simp
    have t: "cat_total ?line = length ?rs"
      using arg_cong [OF totals, of "\<lambda>xs. xs ! i"] i i' by (simp add: case_prod_unfold)
    have s: "cat_successful ?line = successes ?rs"
      using arg_cong [OF succs, of "\<lambda>xs. xs ! i"] i i' by (simp add: case_prod_unfold)
    have rate: "category_rate (successes ?rs) (length ?rs) = Inr (cat_rate ?line)"
      using wf lines i by (rule category_breakdown_rate)
    have le: "successes ?rs \<le> length ?rs" by (simp add: successes_def)
    from category_length_le_total [OF i] small have bound: "length ?rs < 2 ^ 32" by simp
    note rounds = category_rate_rounds [OF le bound]
    have e: "?rs = [] \<longrightarrow> cat_rate ?line = NInt 0 \<and> format_num_1f (cat_rate ?line) = 0"
    proof
      assume "?rs = []"
      then have "length ?rs = 0" by simp
      with rounds have "category_rate (successes ?rs) (length ?rs) = Inr (NInt 0)" by blast
      with rate have "cat_rate ?line = NInt 0" by simp
      then show "cat_rate ?line = NInt 0 \<and> format_num_1f (cat_rate ?line) = 0" by simp
    qed
    have r: "?rs \<noteq> [] \<longrightarrow>
        rounds_to_tenths (successes ?rs) (length ?rs) (format_num_1f (cat_rate ?line))"
    proof
      assume "?rs \<noteq> []"
      then have "0 < length ?rs" by simp
      with rounds obtain x where "category_rate (successes ?rs) (length ?rs) = Inr (NFloat x)"
        and ok: "rounds_to_tenths (successes ?rs) (length ?rs) (format_1f x)" by blast
      with rate have "cat_rate ?line = NFloat x" by simp
      with ok show "rounds_to_tenths (successes ?rs) (length ?rs) (format_num_1f (cat_rate ?line))"
        by simp
    qed
    have x: "format_num_1f (cat_rate ?line) = 667"
      if "successes ?rs = 2 \<and> length ?rs = 3"
    proof -
      from that r have "rounds_to_tenths 2 3 (format_num_1f (cat_rate ?line))" by auto
      then show ?thesis by (simp add: rounds_to_tenths_def)
    qed
    from n t s e r x show ?thesis by blast
  qed
  from rep len each main_no_zero_division show ?thesis by blast
qed

theorem success_rates_witness:
  "wf_results demo_rates
   \<and> 0 < total_documents_of demo_rates
   \<and> total_documents_of demo_rates < 2 ^ 32
   \<and> (\<exists>rep. generate_kmrl_report demo_rates [] = Inr rep
         \<and> map cat_name (rep_breakdown rep) = [''data_file'', ''other'']
         \<and> format_num_1f (cat_rate (rep_breakdown rep ! 0)) = 667
         \<and> format_num_1f (cat_rate (rep_breakdown rep ! 1)) = 0)"
proof -
  have total: "total_documents_of demo_rates = 3"
    by (simp add: total_documents_of_def demo_rates_def)
  have wf: "wf_results demo_rates"
    by (simp add: wf_results_def demo_rates_def wf_outcome_def has_key_def getitem_def
        success_info_def error_info_def)
  have cli: "\<forall>r \<in> set ([] :: pydict list). has_key ''cli_successful'' r" by simp
  have pos: "0 < total_documents_of demo_rates" by (simp add: total)
  have small: "total_documents_of demo_rates < 2 ^ 32" by (simp add: total)
  have first: "successes (snd (demo_rates ! 0)) = 2 \<and> length (snd (demo_rates ! 0)) = 3"
    by (simp add: demo_rates_def successes_def truthy_at_def getitem_def
        success_info_def error_info_def)
  have second: "snd (demo_rates ! 1) = []"
    by (simp add: demo_rates_def)
  have len: "length demo_rates = 2" by (simp add: demo_rates_def)
  have keys: "map fst demo_rates = [''data_file'', ''other'']" by (simp add: demo_rates_def)
  from success_rates [OF wf cli pos small]
  obtain rep where rep: "generate_kmrl_report demo_rates [] = Inr rep"
    and n: "length (rep_breakdown rep) = length demo_rates"
    and each: "\<forall>i < length demo_rates.
            cat_name (rep_breakdown rep ! i) = fst (demo_rates ! i)
          \<and> (snd (demo_rates ! i) = [] \<longrightarrow> cat_rate (rep_breakdown rep ! i) = NInt 0
                \<and> format_num_1f (cat_rate (rep_breakdown rep ! i)) = 0)
          \<and> (successes (snd (demo_rates ! i)) = 2 \<and> length (snd (demo_rates ! i)) = 3 \<longrightarrow>
                format_num_1f (cat_rate (rep_breakdown rep ! i)) = 667)"
    by blast
  from each len first have a: "format_num_1f (cat_rate (rep_breakdown rep ! 0)) = 667" by simp
  from each len second have b: "format_num_1f (cat_rate (rep_breakdown rep ! 1)) = 0" by simp
  have "map cat_name (rep_breakdown rep) = map fst demo_rates"
  proof (rule nth_equalityI)
    show "length (map cat_name (rep_breakdown rep)) = length (map fst demo_rates)"
      using n by simp
  next
    fix i
    assume "i < length (map cat_name (rep_breakdown rep))"
    with n have "i < length demo_rates" by simp
    with each n show "map cat_name (rep_breakdown rep) ! i = map fst demo_rates ! i" by simp
  qed
  with keys have names: "map cat_name (rep_breakdown rep) = [''data_file'', ''other'']" by simp
  show ?thesis
    using wf pos small rep names a b by - (intro conjI exI [of _ rep]; assumption)
qed

section \<open>The readiness judgment\<close>

lemma sum_counts_Inr:
  "sum_counts ''conversion_successful'' ar = Inr n \<Longrightarrow>
     n = sum_list (map (\<lambda>(c, rs). successes rs) ar)"
proof (induction ar arbitrary: n)
  case Nil
  then show ?case by simp
next
  case (Cons p ar)
  obtain c rs where p: "p = (c, rs)" by (cases p)
  from Cons.prems obtain a b where a: "count_if ''conversion_successful'' rs = Inr a"
    and b: "sum_counts ''conversion_successful'' ar = Inr b" and n: "n = a + b"
    by (auto simp: p split: sum.splits)
  from count_if_Inr [OF a] have "a = successes rs" by (simp add: successes_def)
  with Cons.IH [OF b] n show ?case by (simp add: p)
qed

lemma check_critical_Inr:
  "check_critical ar cs acc = Inr b \<Longrightarrow>
     b \<longleftrightarrow> acc \<and> (\<forall>c \<in> set cs. \<forall>rs. getitem ar c = Some rs \<longrightarrow>
                      (\<exists>r \<in> set rs. truthy_at ''conversion_successful'' r))"
proof (induction cs arbitrary: acc)
  case Nil
  then show ?case by simp
next
  case (Cons c cs)
  show ?case
  proof (cases "getitem ar c")
    case None
    with Cons.prems have "check_critical ar cs acc = Inr b" by simp
    from Cons.IH [OF this] None show ?thesis by simp
  next
    case (Some rs)
    with Cons.prems obtain n where n: "count_if ''conversion_successful'' rs = Inr n"
      and rest: "check_critical ar cs (if n = 0 then False else acc) = Inr b"
      by (auto split: sum.splits)
    from count_if_Inr [OF n] have "n = length (filter (truthy_at ''conversion_successful'') rs)"
      by simp
    then have zero: "n = 0 \<longleftrightarrow> \<not> (\<exists>r \<in> set rs. truthy_at ''conversion_successful'' r)"
      by (simp add: filter_empty_conv)
    from Cons.IH [OF rest] Some zero show ?thesis by auto
  qed
qed

lemma generate_kmrl_report_Inr:
  assumes "generate_kmrl_report ar cli_results = Inr rep"
  shows "\<exists>critical_success.
      check_critical ar critical_categories True = Inr critical_success
    \<and> rep_total_documents rep = total_documents_of ar
    \<and> rep_total_successful rep = sum_list (map (\<lambda>(c, rs). successes rs) ar)
    \<and> rep_ready rep = (critical_success \<and>
         meets_threshold (rep_total_successful rep) (rep_total_documents rep))"
proof -
  from assms obtain ts where ts: "sum_counts ''conversion_successful'' ar = Inr ts"
    by (cases "sum_counts ''conversion_successful'' ar")
       (simp_all add: generate_kmrl_report_def Let_def)
  from assms ts obtain critical_success where
      cs: "check_critical ar critical_categories True = Inr critical_success"
    by (cases "check_critical ar critical_categories True")
       (simp_all add: generate_kmrl_report_def Let_def split: sum.splits)
  from assms have "rep_total_documents rep = total_documents_of ar
      \<and> rep_total_successful rep = ts
      \<and> rep_ready rep = (critical_success \<and> meets_threshold ts (total_documents_of ar))"
    unfolding generate_kmrl_report_def Let_def ts cs
    by (auto split: sum.splits prod.splits)
  with cs sum_counts_Inr [OF ts] show ?thesis by simp
qed

text \<open>
  Claim C6. When the report is produced (for fewer than \<open>2 ^ 48\<close> documents, where the
  product with the double 0.7 decides as the exact product does), the run is judged
  ready exactly when every critical category (\<open>word_document\<close>,
  \<open>powerpoint_presentation\<close>, \<open>data_file\<close>) that is present in the results has at
  least one successful conversion and the number of successful conversions is at least
  seven tenths of the number of documents. The two numbers are the count of outcomes
  and the count of successful outcomes over all categories.
\<close>

theorem readiness:
  assumes "generate_kmrl_report all_results cli_results = Inr rep"
    and "total_documents_of all_results < 2 ^ 48"
  shows "rep_total_documents rep = total_documents_of all_results
    \<and> rep_total_successful rep = sum_list (map (\<lambda>(category, results). successes results) all_results)
    \<and> (rep_ready rep \<longleftrightarrow>
          (\<forall>category \<in> set [''word_document'', ''powerpoint_presentation'', ''data_file''].
             \<forall>results. getitem all_results category = Some results \<longrightarrow>
               (\<exists>r \<in> set results. truthy_at ''conversion_successful'' r))
        \<and> 7 * rep_total_documents rep \<le> 10 * rep_total_successful rep)"
proof -
  from generate_kmrl_report_Inr [OF assms(1)]
  obtain critical_success where
      cs: "check_critical all_results critical_categories True = Inr critical_success"
    and total: "rep_total_documents rep = total_documents_of all_results"
    and succ: "rep_total_successful rep = sum_list (map (\<lambda>(c, rs). successes rs) all_results)"
    and ready: "rep_ready rep = (critical_success \<and>
         meets_threshold (rep_total_successful rep) (rep_total_documents rep))"
    by blast
  from assms(2) total have "rep_total_documents rep < 2 ^ 48" by simp
  then have threshold: "meets_threshold (rep_total_successful rep) (rep_total_documents rep)
      \<longleftrightarrow> 7 * rep_total_documents rep \<le> 10 * rep_total_successful rep"
    by (rule meets_threshold_iff)
  from check_critical_Inr [OF cs]
  have critical: "critical_success \<longleftrightarrow>
      (\<forall>category \<in> set [''word_document'', ''powerpoint_presentation'', ''data_file''].
             \<forall>results. getitem all_results category = Some results \<longrightarrow>
               (\<exists>r \<in> set results. truthy_at ''conversion_successful'' r))"
    by (simp add: critical_categories_def)
  show ?thesis
    unfolding ready threshold critical using total succ by simp
qed

theorem readiness_witness:
  "\<exists>rep. generate_kmrl_report demo_results [] = Inr rep
      \<and> total_documents_of demo_results < 2 ^ 48
      \<and> rep_total_documents rep = 4
      \<and> rep_total_successful rep = 3
      \<and> rep_ready rep"
proof -
  have total: "total_documents_of demo_results = 4"
    by (simp add: total_documents_of_def demo_results_def)
  have wf: "wf_results demo_results"
    by (simp add: wf_results_def demo_results_def wf_outcome_def has_key_def getitem_def
        success_info_def error_info_def)
  have "\<forall>r \<in> set ([] :: pydict list). has_key ''cli_successful'' r" by simp
  moreover have "0 < total_documents_of demo_results" by (simp add: total)
  ultimately obtain rep where rep: "generate_kmrl_report demo_results [] = Inr rep"
    using generate_kmrl_report_wf [OF wf] by blast
  have bound: "total_documents_of demo_results < 2 ^ 48" by (simp add: total)
  have succ: "sum_list (map (\<lambda>(category, results). successes results) demo_results) = 3"
    by (simp add: demo_results_def successes_def truthy_at_def getitem_def
        success_info_def error_info_def)
  have critical: "\<forall>category \<in> set [''word_document'', ''powerpoint_presentation'', ''data_file''].
             \<forall>results. getitem demo_results category = Some results \<longrightarrow>
               (\<exists>r \<in> set results. truthy_at ''conversion_successful'' r)"
    by (simp add: demo_results_def getitem_def truthy_at_def success_info_def)
  from readiness [OF rep bound] total succ critical
  have "rep_total_documents rep = 4" and "rep_total_successful rep = 3" and "rep_ready rep"
    by simp_all
  with rep bound show ?thesis by blast
qed

end
